theory Spec2Isabelle
  imports Complex_Main "HOL-Library.Word"
begin

unbundle bit_operations_syntax

section \<open>JavaScript values used by the sources\<close>

subsection \<open>Numbers\<close>

text \<open>
  A JavaScript number is NaN, one of the two infinities, or a finite value. Finite values
  are kept as exact rationals: the rounding of a result to the nearest double is not
  part of this model, and the two zeros are one value (the sources never divide by a
  zero, and a template string prints both zeros alike, so the sign of a zero is not
  observable in them). Where the sources print a computed number into a string, the
  model keeps the exact value in its place.
\<close>

datatype number = NaN | PosInfinity | NegInfinity | Finite rat

definition Number_isFinite :: "number \<Rightarrow> bool" where
  "Number_isFinite v = (case v of Finite _ \<Rightarrow> True | _ \<Rightarrow> False)"

definition Number_isNaN :: "number \<Rightarrow> bool" where
  "Number_isNaN v = (case v of NaN \<Rightarrow> True | _ \<Rightarrow> False)"

text \<open>The relational operators \<^verbatim>\<open><\<close> and \<^verbatim>\<open>>\<close>: every comparison with NaN is false.\<close>

fun js_lt :: "number \<Rightarrow> number \<Rightarrow> bool" where
  "js_lt NaN _ = False"
| "js_lt _ NaN = False"
| "js_lt (Finite x) (Finite y) = (x < y)"
| "js_lt NegInfinity NegInfinity = False"
| "js_lt NegInfinity _ = True"
| "js_lt PosInfinity _ = False"
| "js_lt (Finite x) PosInfinity = True"
| "js_lt (Finite x) NegInfinity = False"

definition js_gt :: "number \<Rightarrow> number \<Rightarrow> bool" where
  "js_gt x y = js_lt y x"

definition js_ge :: "number \<Rightarrow> number \<Rightarrow> bool" where
  "js_ge x y = (\<not> Number_isNaN x \<and> \<not> Number_isNaN y \<and> \<not> js_lt x y)"

text \<open>Division by a finite, non-zero literal (the only division of \<^verbatim>\<open>theme.ts\<close> is by 255).\<close>

definition js_div_lit :: "number \<Rightarrow> rat \<Rightarrow> number" where
  "js_div_lit v d =
     (case v of
        NaN \<Rightarrow> NaN
      | PosInfinity \<Rightarrow> (if 0 < d then PosInfinity else NegInfinity)
      | NegInfinity \<Rightarrow> (if 0 < d then NegInfinity else PosInfinity)
      | Finite x \<Rightarrow> Finite (x / d))"

subsection \<open>Strings\<close>

text \<open>
  A JavaScript string is a sequence of UTF-16 code units, here natural numbers.
  \<open>str\<close> turns a literal of this theory into that sequence.
\<close>

type_synonym jsstring = "nat list"

definition str :: "string \<Rightarrow> jsstring" where
  "str s = map of_char s"

text \<open>
  White space and line terminators of ECMAScript: what \<^verbatim>\<open>trim\<close>, the class \<^verbatim>\<open>\s\<close> and
  the numeric parsers skip.
\<close>

definition isWhiteSpace :: "nat \<Rightarrow> bool" where
  "isWhiteSpace c =
     (c = 9 \<or> c = 10 \<or> c = 11 \<or> c = 12 \<or> c = 13 \<or> c = 32 \<or> c = 160 \<or> c = 5760
      \<or> (8192 \<le> c \<and> c \<le> 8202) \<or> c = 8232 \<or> c = 8233 \<or> c = 8239 \<or> c = 8287
      \<or> c = 12288 \<or> c = 65279)"

definition isDigit :: "nat \<Rightarrow> bool" where
  "isDigit c = (48 \<le> c \<and> c \<le> 57)"

definition trim :: "jsstring \<Rightarrow> jsstring" where
  "trim s = rev (dropWhile isWhiteSpace (rev (dropWhile isWhiteSpace s)))"

definition slice :: "jsstring \<Rightarrow> nat \<Rightarrow> nat \<Rightarrow> jsstring" where
  "slice s i j = take (j - i) (drop i s)"

definition startsWith :: "jsstring \<Rightarrow> jsstring \<Rightarrow> bool" where
  "startsWith s p = (take (length p) s = p)"

text \<open>The value of a digit in radixes up to 36, as \<^verbatim>\<open>parseInt\<close> reads it.\<close>

definition digitValue :: "nat \<Rightarrow> nat option" where
  "digitValue c =
     (if 48 \<le> c \<and> c \<le> 57 then Some (c - 48)
      else if 97 \<le> c \<and> c \<le> 122 then Some (c - 87)
      else if 65 \<le> c \<and> c \<le> 90 then Some (c - 55)
      else None)"

definition isRadixDigit :: "nat \<Rightarrow> nat \<Rightarrow> bool" where
  "isRadixDigit R c = (case digitValue c of Some v \<Rightarrow> v < R | None \<Rightarrow> False)"

definition digitsValue :: "nat \<Rightarrow> jsstring \<Rightarrow> nat" where
  "digitsValue R z =
     foldl (\<lambda>acc c. acc * R + (case digitValue c of Some v \<Rightarrow> v | None \<Rightarrow> 0)) 0 z"

text \<open>
  \<^verbatim>\<open>Number.parseInt(string, radix)\<close> after ECMAScript: leading white space is skipped, a
  sign is read, the prefix \<^verbatim>\<open>0x\<close> is dropped when the radix is 16 (or 0), and the longest
  run of digits of the radix is the value; no digit gives NaN.
\<close>

definition parseInt :: "jsstring \<Rightarrow> nat \<Rightarrow> number" where
  "parseInt s R =
     (let s1 = dropWhile isWhiteSpace s;
          negative = (take 1 s1 = str ''-'');
          s2 = (if take 1 s1 = str ''+'' \<or> take 1 s1 = str ''-'' then drop 1 s1 else s1)
      in if R \<noteq> 0 \<and> (R < 2 \<or> 36 < R) then NaN
         else
           let stripPrefix = (R = 0 \<or> R = 16);
               R1 = (if R = 0 then 10 else R);
               hasPrefix = (stripPrefix \<and> (take 2 s2 = str ''0x'' \<or> take 2 s2 = str ''0X''));
               s3 = (if hasPrefix then drop 2 s2 else s2);
               R2 = (if hasPrefix then 16 else R1);
               z = takeWhile (isRadixDigit R2) s3
           in if z = [] then NaN
              else Finite (if negative then - of_nat (digitsValue R2 z)
                           else of_nat (digitsValue R2 z)))"

text \<open>
  \<^verbatim>\<open>Number.parseFloat(string)\<close> after ECMAScript: leading white space is skipped and the
  longest prefix that is a decimal literal (sign, \<^verbatim>\<open>Infinity\<close>, digits, a fraction, an
  exponent) is the value; no such prefix gives NaN.
\<close>

definition pow10 :: "int \<Rightarrow> rat" where
  "pow10 e = (if 0 \<le> e then 10 ^ nat e else 1 / 10 ^ nat (- e))"

definition parseExponent :: "jsstring \<Rightarrow> int" where
  "parseExponent t =
     (if take 1 t = str ''e'' \<or> take 1 t = str ''E'' then
        let t1 = drop 1 t;
            eneg = (take 1 t1 = str ''-'');
            t2 = (if take 1 t1 = str ''+'' \<or> take 1 t1 = str ''-'' then drop 1 t1 else t1);
            ed = takeWhile isDigit t2
        in if ed = [] then 0
           else if eneg then - int (digitsValue 10 ed) else int (digitsValue 10 ed)
      else 0)"

definition parseFloat :: "jsstring \<Rightarrow> number" where
  "parseFloat s =
     (let s1 = dropWhile isWhiteSpace s;
          negative = (take 1 s1 = str ''-'');
          s2 = (if take 1 s1 = str ''+'' \<or> take 1 s1 = str ''-'' then drop 1 s1 else s1)
      in if take 8 s2 = str ''Infinity'' then (if negative then NegInfinity else PosInfinity)
         else
           let ip = takeWhile isDigit s2;
               t1 = drop (length ip) s2;
               hasDot = (take 1 t1 = str ''.'');
               fp = (if hasDot then takeWhile isDigit (drop 1 t1) else []);
               t2 = (if hasDot then drop (1 + length fp) t1 else t1)
           in if ip = [] \<and> fp = [] then NaN
              else
                let m = (of_nat (digitsValue 10 ip)
                         + of_nat (digitsValue 10 fp) / 10 ^ length fp) * pow10 (parseExponent t2)
                in Finite (if negative then - m else m))"

section \<open>\<^verbatim>\<open>lib/theme.ts\<close>\<close>

text \<open>
  \<^verbatim>\<open>RGBA\<close> of \<^verbatim>\<open>renderer-types\<close>. The fields are \<^verbatim>\<open>r\<close>, \<^verbatim>\<open>g\<close>, \<^verbatim>\<open>b\<close>, \<^verbatim>\<open>a\<close> in the source; they
  carry a prefix here, one-letter constants would capture the variables of every later
  statement.
\<close>

record RGBA =
  rgba_r :: number
  rgba_g :: number
  rgba_b :: number
  rgba_a :: number

text \<open>
  A property of an object literal: absent, present with the value \<^verbatim>\<open>undefined\<close>, or
  present with a value. Object spread copies the last two and skips the first.
\<close>

datatype 'a property = Absent | Undefined | Value 'a

text \<open>
  \<^verbatim>\<open>ITheme\<close> (declared in \<^verbatim>\<open>interfaces\<close>, every member optional). Only the members that
  \<^verbatim>\<open>resolveTheme\<close> reads are kept; the sixteen palette entries are merged and never read.
\<close>

record ITheme =
  foreground :: "jsstring property"
  background :: "jsstring property"
  cursor :: "jsstring property"
  cursorAccent :: "jsstring property"
  selectionBackground :: "jsstring property"
  selectionForeground :: "jsstring property"
  selectionOpacity :: "number property"

record TerminalTheme =
  theme_foreground :: RGBA
  theme_background :: RGBA
  theme_cursor :: RGBA
  theme_cursorAccent :: RGBA
  theme_selectionBackground :: RGBA
  theme_selectionForeground :: "RGBA option"
  theme_selectionOpacity :: number

definition DEFAULT_SELECTION_OPACITY :: number where
  "DEFAULT_SELECTION_OPACITY = Finite (4 / 10)"

definition DEFAULT_THEME :: ITheme where
  "DEFAULT_THEME =
     \<lparr> foreground = Value (str ''#d4d4d4''),
       background = Value (str ''#1e1e1e''),
       cursor = Value (str ''#ffffff''),
       cursorAccent = Value (str ''#1e1e1e''),
       selectionBackground = Value (str ''#d4d4d4''),
       selectionForeground = Value (str ''#1e1e1e''),
       selectionOpacity = Value DEFAULT_SELECTION_OPACITY \<rparr>"

definition clampByte :: "number \<Rightarrow> number" where
  "clampByte v =
     (if \<not> Number_isFinite v then Finite 0
      else if js_lt v (Finite 0) then Finite 0
      else if js_gt v (Finite 255) then Finite 255
      else v)"

definition clampAlpha :: "number \<Rightarrow> number" where
  "clampAlpha v =
     (if \<not> Number_isFinite v then Finite 1
      else if js_lt v (Finite 0) then Finite 0
      else if js_gt v (Finite 1) then Finite 1
      else v)"

definition normalizeOpacity :: "number option \<Rightarrow> number" where
  "normalizeOpacity v =
     (case v of
        None \<Rightarrow> DEFAULT_SELECTION_OPACITY
      | Some x \<Rightarrow> if \<not> Number_isFinite x then DEFAULT_SELECTION_OPACITY else clampAlpha x)"

definition parseHexColor :: "jsstring \<Rightarrow> RGBA option" where
  "parseHexColor v =
     (let hex = trim (drop 1 v) in
      if length hex \<notin> {3, 4, 6, 8} then None
      else
        let expand = (\<lambda>h. h @ h);
            short = (length hex = 3 \<or> length hex = 4);
            r = (if short then expand (slice hex 0 1) else slice hex 0 2);
            g = (if short then expand (slice hex 1 2) else slice hex 2 4);
            b = (if short then expand (slice hex 2 3) else slice hex 4 6);
            a = (if short then (if length hex = 4 then expand (slice hex 3 4) else str ''ff'')
                 else (if length hex = 8 then slice hex 6 8 else str ''ff''));
            ri = parseInt r 16;
            gi = parseInt g 16;
            bi = parseInt b 16;
            ai = parseInt a 16
        in if list_ex Number_isNaN [ri, gi, bi, ai] then None
           else Some \<lparr> rgba_r = clampByte ri, rgba_g = clampByte gi, rgba_b = clampByte bi,
                       rgba_a = clampAlpha (js_div_lit ai 255) \<rparr>)"

text \<open>
  The pattern of \<^verbatim>\<open>parseColor\<close>,
  \<^verbatim>\<open>/^rgba?\(\s*(\d{1,3})\s*,\s*(\d{1,3})\s*,\s*(\d{1,3})\s*(?:,\s*([0-9.]+)\s*)?\)$/\<close>,
  read from left to right. Each greedy piece is followed by a piece that accepts none
  of its characters, so the greedy reading is the only match and no backtracking is
  needed. The result is the four capture groups, the fourth being optional.
\<close>

definition expect :: "nat \<Rightarrow> jsstring \<Rightarrow> jsstring option" where
  "expect c s = (case s of [] \<Rightarrow> None | x # t \<Rightarrow> if x = c then Some t else None)"

definition skipWs :: "jsstring \<Rightarrow> jsstring" where
  "skipWs s = dropWhile isWhiteSpace s"

definition digits13 :: "jsstring \<Rightarrow> (jsstring \<times> jsstring) option" where
  "digits13 s =
     (let ds = take 3 (takeWhile isDigit s)
      in if ds = [] then None else Some (ds, drop (length ds) s))"

definition isAlphaChannelChar :: "nat \<Rightarrow> bool" where
  "isAlphaChannelChar c = (isDigit c \<or> c = 46)"

definition matchRgb :: "jsstring \<Rightarrow> (jsstring \<times> jsstring \<times> jsstring \<times> jsstring option) option" where
  "matchRgb v =
     (if \<not> startsWith v (str ''rgb'') then None
      else
        let s1 = drop 3 v;
            s2 = (if take 1 s1 = str ''a'' then drop 1 s1 else s1)
        in Option.bind (expect 40 s2) (\<lambda>s3.
           Option.bind (digits13 (skipWs s3)) (\<lambda>(g1, s4).
           Option.bind (expect 44 (skipWs s4)) (\<lambda>s5.
           Option.bind (digits13 (skipWs s5)) (\<lambda>(g2, s6).
           Option.bind (expect 44 (skipWs s6)) (\<lambda>s7.
           Option.bind (digits13 (skipWs s7)) (\<lambda>(g3, s8).
             let s9 = skipWs s8
             in if take 1 s9 = str '','' then
                  (let s10 = skipWs (drop 1 s9);
                       g4 = takeWhile isAlphaChannelChar s10;
                       s11 = skipWs (drop (length g4) s10)
                   in if g4 \<noteq> [] \<and> s11 = str '')'' then Some (g1, g2, g3, Some g4)
                      else None)
                else if s9 = str '')'' then Some (g1, g2, g3, None)
                else None)))))))"

definition parseColor :: "jsstring option \<Rightarrow> RGBA option" where
  "parseColor value =
     (case value of
        None \<Rightarrow> None
      | Some v \<Rightarrow>
          if v = [] then None
          else if startsWith v (str ''#'') then parseHexColor v
          else
            (case matchRgb v of
               Some (g1, g2, g3, g4) \<Rightarrow>
                 Some \<lparr> rgba_r = clampByte (parseInt g1 10),
                        rgba_g = clampByte (parseInt g2 10),
                        rgba_b = clampByte (parseInt g3 10),
                        rgba_a = (case g4 of Some t \<Rightarrow> clampAlpha (parseFloat t)
                                  | None \<Rightarrow> Finite 1) \<rparr>
             | None \<Rightarrow> None))"

definition resolveColor :: "jsstring option \<Rightarrow> jsstring \<Rightarrow> RGBA" where
  "resolveColor value fallback =
     (case parseColor value of
        Some c \<Rightarrow> c
      | None \<Rightarrow>
          (case parseColor (Some fallback) of
             Some c \<Rightarrow> c
           | None \<Rightarrow> \<lparr> rgba_r = Finite 0, rgba_g = Finite 0, rgba_b = Finite 0,
                       rgba_a = Finite 1 \<rparr>))"

definition resolveOptionalColor :: "jsstring option \<Rightarrow> RGBA option" where
  "resolveOptionalColor value =
     (case value of
        None \<Rightarrow> None
      | Some v \<Rightarrow> if v = [] \<or> v = str ''undefined'' then None else parseColor (Some v))"

text \<open>
  A member of \<^verbatim>\<open>{ ...DEFAULT_THEME, ...(theme ?? {}) }\<close>: the override's property when it
  has one (also when its value is \<^verbatim>\<open>undefined\<close>), the default's otherwise.
\<close>

definition merged :: "ITheme option \<Rightarrow> (ITheme \<Rightarrow> 'a property) \<Rightarrow> 'a option" where
  "merged theme f =
     (case (case theme of None \<Rightarrow> Absent | Some t \<Rightarrow> f t) of
        Absent \<Rightarrow> (case f DEFAULT_THEME of Value d \<Rightarrow> Some d | _ \<Rightarrow> None)
      | Undefined \<Rightarrow> None
      | Value x \<Rightarrow> Some x)"

text \<open>\<^verbatim>\<open>theme?.member\<close>: \<^verbatim>\<open>undefined\<close> unless the override has the property with a value.\<close>

definition theme_member :: "ITheme option \<Rightarrow> (ITheme \<Rightarrow> 'a property) \<Rightarrow> 'a option" where
  "theme_member theme f =
     (case theme of
        None \<Rightarrow> None
      | Some t \<Rightarrow> (case f t of Value x \<Rightarrow> Some x | _ \<Rightarrow> None))"

text \<open>The default's own string for a slot, the second argument of \<^verbatim>\<open>resolveColor\<close>.\<close>

definition default_of :: "(ITheme \<Rightarrow> jsstring property) \<Rightarrow> jsstring" where
  "default_of f = (case f DEFAULT_THEME of Value d \<Rightarrow> d | _ \<Rightarrow> [])"

definition resolveTheme :: "ITheme option \<Rightarrow> TerminalTheme" where
  "resolveTheme theme =
     (let selectionOpacity' = normalizeOpacity (theme_member theme selectionOpacity)
      in \<lparr> theme_foreground = resolveColor (merged theme foreground) (default_of foreground),
           theme_background = resolveColor (merged theme background) (default_of background),
           theme_cursor = resolveColor (merged theme cursor) (default_of cursor),
           theme_cursorAccent =
             resolveColor (merged theme cursorAccent) (default_of cursorAccent),
           theme_selectionBackground =
             resolveColor (merged theme selectionBackground) (default_of selectionBackground),
           theme_selectionForeground =
             resolveOptionalColor
               (case theme_member theme selectionForeground of
                  Some x \<Rightarrow> Some x
                | None \<Rightarrow> merged theme selectionForeground),
           theme_selectionOpacity = selectionOpacity' \<rparr>)"

section \<open>\<^verbatim>\<open>lib/render-scheduler.ts\<close>\<close>

text \<open>
  A \<^verbatim>\<open>RenderCallback\<close> is a closure. What it can do to the scheduler is call
  \<^verbatim>\<open>schedule\<close> and \<^verbatim>\<open>cancel\<close> (the other members are private), any number of times and
  depending on the handles it gets back, and then return. Its body is kept as that
  sequence of calls: \<open>DoSchedule cb ts k\<close> calls \<^verbatim>\<open>schedule(cb, ts)\<close> and goes on as
  \<open>k handle\<close>, \<open>DoCancel h p\<close> calls \<^verbatim>\<open>cancel(h)\<close> and goes on as \<open>p\<close>. A callback
  that throws or never returns is outside this model.
\<close>

datatype RenderCallback = Callback "number \<Rightarrow> number option \<Rightarrow> body"
and body = Done | DoSchedule RenderCallback "number option" "nat \<Rightarrow> body" | DoCancel nat body

record PendingRender =
  callback :: RenderCallback
  scheduledAt :: "number option"

text \<open>What the host observed: a run of \<^verbatim>\<open>flush\<close> began, a callback was invoked.\<close>

datatype event = Flush number | Invoked RenderCallback number "number option"

text \<open>
  The scheduler's fields, with the part of the host it talks to: \<open>animationFrames\<close>
  are the handles of the requests made with \<^verbatim>\<open>requestAnimationFrame\<close> that have not yet
  fired (each of them runs \<^verbatim>\<open>flush\<close>), \<open>nextHandle\<close> the next handle the host gives
  out, and \<open>trace\<close> the log of events, which no code reads. \<open>pending\<close> is the
  \<^verbatim>\<open>Map\<close>, in insertion order.
\<close>

record RenderScheduler =
  pending :: "(nat \<times> PendingRender) list"
  nextId :: nat
  rafId :: "nat option"
  animationFrames :: "nat list"
  nextHandle :: nat
  trace :: "event list"

definition new_RenderScheduler :: RenderScheduler where
  "new_RenderScheduler =
     \<lparr> pending = [], nextId = 1, rafId = None, animationFrames = [], nextHandle = 1,
       trace = [] \<rparr>"

text \<open>\<^verbatim>\<open>Map.set\<close>, \<^verbatim>\<open>Map.delete\<close>, \<^verbatim>\<open>Map.values\<close>: a key that is set again keeps its place.\<close>

fun Map_set :: "nat \<Rightarrow> 'v \<Rightarrow> (nat \<times> 'v) list \<Rightarrow> (nat \<times> 'v) list" where
  "Map_set k v [] = [(k, v)]"
| "Map_set k v ((k', v') # m) = (if k' = k then (k, v) # m else (k', v') # Map_set k v m)"

definition Map_delete :: "nat \<Rightarrow> (nat \<times> 'v) list \<Rightarrow> (nat \<times> 'v) list" where
  "Map_delete k m = filter (\<lambda>e. fst e \<noteq> k) m"

definition Map_values :: "(nat \<times> 'v) list \<Rightarrow> 'v list" where
  "Map_values m = map snd m"

definition requestAnimationFrame :: "RenderScheduler \<Rightarrow> nat \<times> RenderScheduler" where
  "requestAnimationFrame s =
     (nextHandle s,
      s\<lparr> animationFrames := animationFrames s @ [nextHandle s],
         nextHandle := nextHandle s + 1 \<rparr>)"

definition ensureRaf :: "RenderScheduler \<Rightarrow> RenderScheduler" where
  "ensureRaf s =
     (if rafId s \<noteq> None then s
      else case requestAnimationFrame s of (h, s') \<Rightarrow> s'\<lparr> rafId := Some h \<rparr>)"

definition schedule :: "RenderCallback \<Rightarrow> number option \<Rightarrow> RenderScheduler \<Rightarrow> nat \<times> RenderScheduler" where
  "schedule cb ts s =
     (let h = nextId s;
          s1 = s\<lparr> nextId := nextId s + 1 \<rparr>;
          s2 = s1\<lparr> pending := Map_set h \<lparr> callback = cb, scheduledAt = ts \<rparr> (pending s1) \<rparr>
      in (h, ensureRaf s2))"

definition cancel :: "nat \<Rightarrow> RenderScheduler \<Rightarrow> RenderScheduler" where
  "cancel h s = s\<lparr> pending := Map_delete h (pending s) \<rparr>"

primrec run :: "body \<Rightarrow> RenderScheduler \<Rightarrow> RenderScheduler" where
  "run Done s = s"
| "run (DoSchedule cb ts k) s = (case schedule cb ts s of (h, s') \<Rightarrow> run (k h) s')"
| "run (DoCancel h p) s = run p (cancel h s)"

definition invoke :: "PendingRender \<Rightarrow> number \<Rightarrow> RenderScheduler \<Rightarrow> RenderScheduler" where
  "invoke entry now s =
     (case callback entry of
        Callback f \<Rightarrow>
          run (f now (scheduledAt entry))
            (s\<lparr> trace := trace s @ [Invoked (callback entry) now (scheduledAt entry)] \<rparr>))"

definition flush :: "number \<Rightarrow> RenderScheduler \<Rightarrow> RenderScheduler" where
  "flush now s =
     (let s1 = s\<lparr> rafId := None, trace := trace s @ [Flush now] \<rparr>
      in if length (pending s1) = 0 then s1
         else
           let entries = Map_values (pending s1);
               s2 = s1\<lparr> pending := [] \<rparr>;
               s3 = fold (\<lambda>entry. invoke entry now) entries s2
           in if length (pending s3) > 0 then ensureRaf s3 else s3)"

text \<open>
  The display-refresh boundary, as the host runs it: the requests armed so far are taken
  out of the list, then each one is fired; a request made meanwhile waits for the next
  boundary.
\<close>

definition animationFrame :: "number \<Rightarrow> RenderScheduler \<Rightarrow> RenderScheduler" where
  "animationFrame now s =
     fold (\<lambda>h. flush now) (animationFrames s) (s\<lparr> animationFrames := [] \<rparr>)"

text \<open>Calls made from outside a flush, one after the other.\<close>

datatype call = Schedule RenderCallback "number option" | Cancel nat

fun apply_calls :: "call list \<Rightarrow> RenderScheduler \<Rightarrow> RenderScheduler" where
  "apply_calls [] s = s"
| "apply_calls (Schedule cb ts # cs) s = apply_calls cs (snd (schedule cb ts s))"
| "apply_calls (Cancel h # cs) s = apply_calls cs (cancel h s)"

section \<open>\<^verbatim>\<open>renderer-types\<close>\<close>

text \<open>
  Pixel quantities and the numbers of the per-frame record are finite here and kept as
  rationals; grid sizes and loop indices are natural numbers, grid coordinates of
  ranges are integers.
\<close>

record CellMetrics =
  width :: rat
  height :: rat
  baseline :: rat

datatype CursorStyle = CursorBlock | CursorUnderline | CursorBar

record SelectionRange =
  startCol :: int
  startRow :: int
  endCol :: int
  endRow :: int

record LinkRange =
  startX :: int
  startY :: int
  endX :: int
  endY :: int

record HyperlinkRange =
  hyperlinkId :: nat
  linkRange :: "LinkRange option"

definition ROW_DIRTY :: "8 word" where
  "ROW_DIRTY = 0x01"

definition ROW_HAS_SELECTION :: "8 word" where
  "ROW_HAS_SELECTION = 0x02"

definition ROW_HAS_HYPERLINK :: "8 word" where
  "ROW_HAS_HYPERLINK = 0x04"

text \<open>
  Modelled from the spec: \<^verbatim>\<open>GhosttyCell\<close> of \<^verbatim>\<open>types\<close>, whose declaration is not among the
  sources. The members are those the renderer reads: a code point, a display width in
  cells (0 for the spacer after a wide glyph), foreground and background colour
  components, a style bitmask, a hyperlink identifier and the length of the grapheme
  cluster. The member \<^verbatim>\<open>width\<close> is \<open>cell_width\<close> here. The bitmask is a 32-bit word, the
  operand width of the bitwise operators.
\<close>

record GhosttyCell =
  codepoint :: nat
  fg_r :: nat
  fg_g :: nat
  fg_b :: nat
  bg_r :: nat
  bg_g :: nat
  bg_b :: nat
  flags :: "32 word"
  cell_width :: nat
  hyperlink_id :: nat
  grapheme_len :: nat

text \<open>
  The constants of \<^verbatim>\<open>types\<close> that the renderer reads, whose declarations are not among
  the sources either: the member \<^verbatim>\<open>FULL\<close> of the enumeration \<^verbatim>\<open>DirtyState\<close> (a type
  parameter here) and the masks of \<^verbatim>\<open>CellFlags\<close>. They are a parameter of every function
  that reads one.
\<close>

record 'ds Types =
  FULL :: 'ds
  BOLD :: "32 word"
  ITALIC :: "32 word"
  UNDERLINE :: "32 word"
  STRIKETHROUGH :: "32 word"
  INVERSE :: "32 word"
  INVISIBLE :: "32 word"
  FAINT :: "32 word"

text \<open>\<^verbatim>\<open>RenderInput\<close>; its member \<^verbatim>\<open>theme\<close> is \<open>input_theme\<close> here.\<close>

record 'ds RenderInput =
  cols :: nat
  rows :: nat
  viewportCells :: "GhosttyCell list"
  rowFlags :: "8 word list"
  dirtyState :: 'ds
  selectionRange :: "SelectionRange option"
  hoveredLink :: "HyperlinkRange option"
  cursorX :: rat
  cursorY :: rat
  cursorVisible :: bool
  cursorStyle :: CursorStyle
  getGraphemeString :: "nat \<Rightarrow> nat \<Rightarrow> jsstring"
  input_theme :: TerminalTheme
  viewportY :: rat
  scrollbackLength :: rat
  scrollbarOpacity :: rat

section \<open>The drawing surface\<close>

text \<open>
  A CSS colour as the renderer writes it: the template strings \<^verbatim>\<open>rgb(r, g, b)\<close> and
  \<^verbatim>\<open>rgba(r, g, b, a)\<close> are kept by their components, a literal by its text.
\<close>

datatype css = CssRgb number number number | CssRgba number number number number
  | CssLiteral string

text \<open>The font string \<^verbatim>\<open>${fontStyle}${fontSize}px ${fontFamily}\<close>, by its three parts.\<close>

datatype fontspec = Font string rat jsstring

datatype segment = MoveTo rat rat | LineTo rat rat

text \<open>
  What has been painted: each entry carries the style, the alpha and the font in force
  when the call was made.
\<close>

datatype draw =
    FillRect css number rat rat rat rat
  | FillText css number fontspec jsstring rat rat
  | Stroke css rat "segment list"

text \<open>
  A \<^verbatim>\<open>CanvasRenderingContext2D\<close>: the attributes the renderer assigns, the current path,
  the scale factors and the log of what was painted. An assignment stores the value (the
  browser's validation of assigned values is not modelled).
\<close>

record Context2D =
  fillStyle :: css
  strokeStyle :: css
  globalAlpha :: number
  lineWidth :: rat
  font :: fontspec
  textBaseline :: string
  textAlign :: string
  currentPath :: "segment list"
  scaleFactors :: "rat \<times> rat"
  drawn :: "draw list"

definition fillRect :: "Context2D \<Rightarrow> rat \<Rightarrow> rat \<Rightarrow> rat \<Rightarrow> rat \<Rightarrow> Context2D" where
  "fillRect c x y w h = c\<lparr> drawn := drawn c @ [FillRect (fillStyle c) (globalAlpha c) x y w h] \<rparr>"

definition fillText :: "Context2D \<Rightarrow> jsstring \<Rightarrow> rat \<Rightarrow> rat \<Rightarrow> Context2D" where
  "fillText c t x y =
     c\<lparr> drawn := drawn c @ [FillText (fillStyle c) (globalAlpha c) (font c) t x y] \<rparr>"

definition beginPath :: "Context2D \<Rightarrow> Context2D" where
  "beginPath c = c\<lparr> currentPath := [] \<rparr>"

definition moveTo :: "Context2D \<Rightarrow> rat \<Rightarrow> rat \<Rightarrow> Context2D" where
  "moveTo c x y = c\<lparr> currentPath := currentPath c @ [MoveTo x y] \<rparr>"

definition lineTo :: "Context2D \<Rightarrow> rat \<Rightarrow> rat \<Rightarrow> Context2D" where
  "lineTo c x y = c\<lparr> currentPath := currentPath c @ [LineTo x y] \<rparr>"

definition stroke :: "Context2D \<Rightarrow> Context2D" where
  "stroke c = c\<lparr> drawn := drawn c @ [Stroke (strokeStyle c) (lineWidth c) (currentPath c)] \<rparr>"

definition scale :: "Context2D \<Rightarrow> rat \<Rightarrow> rat \<Rightarrow> Context2D" where
  "scale c sx sy = c\<lparr> scaleFactors := (fst (scaleFactors c) * sx, snd (scaleFactors c) * sy) \<rparr>"

text \<open>
  An \<^verbatim>\<open>HTMLCanvasElement\<close>: its backing-store size, its CSS size in pixels, and what
  \<^verbatim>\<open>getContext("2d")\<close> returns (\<^verbatim>\<open>null\<close> when the browser has no such context).
\<close>

record HTMLCanvasElement =
  canvas_width :: rat
  canvas_height :: rat
  style_width :: rat
  style_height :: rat
  context2d :: "Context2D option"

section \<open>The canvas renderer\<close>

text \<open>
  The errors the renderer raises: the two it throws itself, and the \<^verbatim>\<open>RangeError\<close> of
  \<^verbatim>\<open>String.fromCodePoint\<close> on a number that is no code point.
\<close>

datatype error = NotAttached | NoContext2D | RangeError

text \<open>
  The fields of \<^verbatim>\<open>CanvasRenderer\<close>. The context object is held by value: \<open>ctx\<close> is the
  state of the context the renderer draws on.
\<close>

record CanvasRenderer =
  canvas :: "HTMLCanvasElement option"
  ctx :: "Context2D option"
  fontSize :: rat
  fontFamily :: jsstring
  theme :: TerminalTheme
  devicePixelRatio :: rat
  metrics :: CellMetrics
  currentSelectionRange :: "SelectionRange option"
  currentHoveredLink :: "HyperlinkRange option"
  currentGetGraphemeString :: "(nat \<Rightarrow> nat \<Rightarrow> jsstring) option"

text \<open>
  A method that returns nothing gives the error it threw, if any, and the state it left
  behind. \<open>andThen\<close> runs a second step unless the first threw; \<open>forEach\<close> is a
  \<^verbatim>\<open>for\<close> loop over the given indices.
\<close>

type_synonym 's outcome = "error option \<times> 's"

definition andThen :: "('s \<Rightarrow> 's outcome) \<Rightarrow> ('s \<Rightarrow> 's outcome) \<Rightarrow> 's \<Rightarrow> 's outcome" where
  "andThen f g s = (case f s of (Some e, s') \<Rightarrow> (Some e, s') | (None, s') \<Rightarrow> g s')"

fun forEach :: "nat list \<Rightarrow> (nat \<Rightarrow> 's \<Rightarrow> 's outcome) \<Rightarrow> 's \<Rightarrow> 's outcome" where
  "forEach [] f s = (None, s)"
| "forEach (x # xs) f s = (case f x s of (Some e, s') \<Rightarrow> (Some e, s') | (None, s') \<Rightarrow> forEach xs f s')"

definition rgbToCSS :: "nat \<Rightarrow> nat \<Rightarrow> nat \<Rightarrow> css" where
  "rgbToCSS r g b = CssRgb (Finite (of_nat r)) (Finite (of_nat g)) (Finite (of_nat b))"

text \<open>\<^verbatim>\<open>rgbaToCss\<close> of \<^verbatim>\<open>theme.ts\<close>.\<close>

definition rgbaToCss :: "RGBA \<Rightarrow> css" where
  "rgbaToCss color =
     (let a = clampAlpha (rgba_a color)
      in if js_ge a (Finite 1) then CssRgb (rgba_r color) (rgba_g color) (rgba_b color)
         else CssRgba (rgba_r color) (rgba_g color) (rgba_b color) a)"

definition requireContext :: "CanvasRenderer \<Rightarrow> error + Context2D" where
  "requireContext r =
     (case ctx r of
        None \<Rightarrow> Inl NotAttached
      | Some c \<Rightarrow> (case canvas r of None \<Rightarrow> Inl NotAttached | Some _ \<Rightarrow> Inr c))"

definition requireCanvas :: "CanvasRenderer \<Rightarrow> error + HTMLCanvasElement" where
  "requireCanvas r = (case canvas r of None \<Rightarrow> Inl NotAttached | Some cv \<Rightarrow> Inr cv)"

definition attach :: "CanvasRenderer \<Rightarrow> HTMLCanvasElement \<Rightarrow> CanvasRenderer outcome" where
  "attach r cv =
     (let r1 = r\<lparr> canvas := Some cv \<rparr>
      in case context2d cv of
           None \<Rightarrow> (Some NoContext2D, r1)
         | Some c \<Rightarrow> (None, r1\<lparr> ctx := Some c \<rparr>))"

definition resize :: "CanvasRenderer \<Rightarrow> nat \<Rightarrow> nat \<Rightarrow> CanvasRenderer outcome" where
  "resize r cols' rows' =
     (case requireCanvas r of
        Inl e \<Rightarrow> (Some e, r)
      | Inr cv \<Rightarrow>
          (case requireContext r of
             Inl e \<Rightarrow> (Some e, r)
           | Inr c \<Rightarrow>
               let cssWidth = of_nat cols' * width (metrics r);
                   cssHeight = of_nat rows' * height (metrics r);
                   cv1 = cv\<lparr> style_width := cssWidth, style_height := cssHeight,
                            canvas_width := cssWidth * devicePixelRatio r,
                            canvas_height := cssHeight * devicePixelRatio r \<rparr>;
                   c1 = scale c (devicePixelRatio r) (devicePixelRatio r);
                   c2 = c1\<lparr> textBaseline := ''alphabetic'', textAlign := ''left'' \<rparr>;
                   c3 = c2\<lparr> fillStyle := rgbaToCss (theme_background (theme r)) \<rparr>;
                   c4 = fillRect c3 0 0 cssWidth cssHeight
               in (None, r\<lparr> canvas := Some cv1, ctx := Some c4 \<rparr>)))"

definition isInSelection :: "CanvasRenderer \<Rightarrow> nat \<Rightarrow> nat \<Rightarrow> bool" where
  "isInSelection r x y =
     (case currentSelectionRange r of
        None \<Rightarrow> False
      | Some sel \<Rightarrow>
          if startRow sel = endRow sel
          then int y = startRow sel \<and> int x \<ge> startCol sel \<and> int x \<le> endCol sel
          else if int y = startRow sel then int x \<ge> startCol sel
          else if int y = endRow sel then int x \<le> endCol sel
          else if int y > startRow sel \<and> int y < endRow sel then True
          else False)"

definition renderCellBackground ::
  "'ds Types \<Rightarrow> CanvasRenderer \<Rightarrow> GhosttyCell \<Rightarrow> nat \<Rightarrow> nat \<Rightarrow> CanvasRenderer outcome" where
  "renderCellBackground T r cell x y =
     (case requireContext r of
        Inl e \<Rightarrow> (Some e, r)
      | Inr c \<Rightarrow>
          let cellX = of_nat x * width (metrics r);
              cellY = of_nat y * height (metrics r);
              cellWidth = width (metrics r) * of_nat (cell_width cell);
              isSelected = isInSelection r x y;
              inverse = (flags cell AND INVERSE T \<noteq> 0);
              bg_r' = (if inverse then fg_r cell else bg_r cell);
              bg_g' = (if inverse then fg_g cell else bg_g cell);
              bg_b' = (if inverse then fg_b cell else bg_b cell);
              isDefaultBg = (bg_r' = 0 \<and> bg_g' = 0 \<and> bg_b' = 0);
              c1 = (if \<not> isDefaultBg
                    then fillRect (c\<lparr> fillStyle := rgbToCSS bg_r' bg_g' bg_b' \<rparr>)
                           cellX cellY cellWidth (height (metrics r))
                    else c);
              c2 = (if isSelected
                    then (fillRect
                            (c1\<lparr> globalAlpha := theme_selectionOpacity (theme r),
                                 fillStyle := rgbaToCss (theme_selectionBackground (theme r)) \<rparr>)
                            cellX cellY cellWidth (height (metrics r)))
                         \<lparr> globalAlpha := Finite 1 \<rparr>
                    else c1)
          in (None, r\<lparr> ctx := Some c2 \<rparr>))"

text \<open>\<^verbatim>\<open>String.fromCodePoint\<close>: one code unit, or a surrogate pair above the basic plane.\<close>

definition fromCodePoint :: "nat \<Rightarrow> error + jsstring" where
  "fromCodePoint cp =
     (if cp > 1114111 then Inl RangeError
      else if cp < 65536 then Inr [cp]
      else Inr [55296 + (cp - 65536) div 1024, 56320 + (cp - 65536) mod 1024])"

text \<open>The four calls that stroke one horizontal line, as the renderer makes them.\<close>

definition strokeLine :: "Context2D \<Rightarrow> css \<Rightarrow> rat \<Rightarrow> rat \<Rightarrow> rat \<Rightarrow> Context2D" where
  "strokeLine c style x1 x2 y =
     stroke (lineTo (moveTo (beginPath (c\<lparr> strokeStyle := style, lineWidth := 1 \<rparr>)) x1 y) x2 y)"

definition inLinkRange :: "LinkRange \<Rightarrow> nat \<Rightarrow> nat \<Rightarrow> bool" where
  "inLinkRange rng x y =
     ((int y = startY rng \<and> int x \<ge> startX rng
         \<and> (int y < endY rng \<or> int x \<le> endX rng))
      \<or> (int y > startY rng \<and> int y < endY rng)
      \<or> (int y = endY rng \<and> int x \<le> endX rng
         \<and> (int y > startY rng \<or> int x \<ge> startX rng)))"

text \<open>
  \<^verbatim>\<open>renderCellText\<close>, in the order of its sections: the font and the text colour
  (\<open>textStyle\<close>), the character to draw (\<open>cellChar\<close>), and after the glyph the
  underline, the strikethrough and the two link underlines (\<open>decorations\<close>).
\<close>

definition textStyle ::
  "'ds Types \<Rightarrow> CanvasRenderer \<Rightarrow> Context2D \<Rightarrow> GhosttyCell \<Rightarrow> nat \<Rightarrow> nat \<Rightarrow> Context2D" where
  "textStyle T r c cell x y =
     (let isSelected = isInSelection r x y;
          fontStyle = (if flags cell AND ITALIC T \<noteq> 0 then ''italic '' else [])
                       @ (if flags cell AND BOLD T \<noteq> 0 then ''bold '' else []);
          c1 = c\<lparr> font := Font fontStyle (fontSize r) (fontFamily r) \<rparr>;
          inverse = (flags cell AND INVERSE T \<noteq> 0);
          fg_r' = (if inverse then bg_r cell else fg_r cell);
          fg_g' = (if inverse then bg_g cell else fg_g cell);
          fg_b' = (if inverse then bg_b cell else fg_b cell);
          c2 = (case theme_selectionForeground (theme r) of
                  Some selFg \<Rightarrow>
                    if isSelected then c1\<lparr> fillStyle := rgbaToCss selFg \<rparr>
                    else c1\<lparr> fillStyle := rgbToCSS fg_r' fg_g' fg_b' \<rparr>
                | None \<Rightarrow> c1\<lparr> fillStyle := rgbToCSS fg_r' fg_g' fg_b' \<rparr>)
      in if flags cell AND FAINT T \<noteq> 0 then c2\<lparr> globalAlpha := Finite (1 / 2) \<rparr> else c2)"

definition cellChar :: "CanvasRenderer \<Rightarrow> GhosttyCell \<Rightarrow> nat \<Rightarrow> nat \<Rightarrow> error + jsstring" where
  "cellChar r cell x y =
     (case currentGetGraphemeString r of
        Some f \<Rightarrow>
          if grapheme_len cell > 0 then Inr (f y x)
          else fromCodePoint (if codepoint cell = 0 then 32 else codepoint cell)
      | None \<Rightarrow> fromCodePoint (if codepoint cell = 0 then 32 else codepoint cell))"

definition decorations ::
  "'ds Types \<Rightarrow> CanvasRenderer \<Rightarrow> Context2D \<Rightarrow> GhosttyCell \<Rightarrow> nat \<Rightarrow> nat \<Rightarrow> Context2D" where
  "decorations T r c5 cell x y =
     (let cellX = of_nat x * width (metrics r);
          cellY = of_nat y * height (metrics r);
          cellWidth = width (metrics r) * of_nat (cell_width cell);
          c6 = (if flags cell AND UNDERLINE T \<noteq> 0
                then strokeLine c5 (fillStyle c5) cellX (cellX + cellWidth)
                       (cellY + baseline (metrics r) + 2)
                else c5);
          c7 = (if flags cell AND STRIKETHROUGH T \<noteq> 0
                then strokeLine c6 (fillStyle c6) cellX (cellX + cellWidth)
                       (cellY + height (metrics r) / 2)
                else c6);
          hoveredHyperlinkId =
            (case currentHoveredLink r of None \<Rightarrow> 0 | Some l \<Rightarrow> hyperlinkId l);
          c8 = (if hyperlink_id cell > 0 \<and> hyperlink_id cell = hoveredHyperlinkId
                then strokeLine c7 (CssLiteral ''#4A90E2'') cellX (cellX + cellWidth)
                       (cellY + baseline (metrics r) + 2)
                else c7)
      in case currentHoveredLink r of
           None \<Rightarrow> c8
         | Some l \<Rightarrow>
             (case linkRange l of
                None \<Rightarrow> c8
              | Some rng \<Rightarrow>
                  if inLinkRange rng x y
                  then strokeLine c8 (CssLiteral ''#4A90E2'') cellX (cellX + cellWidth)
                         (cellY + baseline (metrics r) + 2)
                  else c8))"

definition renderCellText ::
  "'ds Types \<Rightarrow> CanvasRenderer \<Rightarrow> GhosttyCell \<Rightarrow> nat \<Rightarrow> nat \<Rightarrow> CanvasRenderer outcome" where
  "renderCellText T r cell x y =
     (case requireContext r of
        Inl e \<Rightarrow> (Some e, r)
      | Inr c \<Rightarrow>
          if flags cell AND INVISIBLE T \<noteq> 0 then (None, r)
          else
            let c3 = textStyle T r c cell x y;
                textX = of_nat x * width (metrics r);
                textY = of_nat y * height (metrics r) + baseline (metrics r)
            in (case cellChar r cell x y of
                  Inl e \<Rightarrow> (Some e, r\<lparr> ctx := Some c3 \<rparr>)
                | Inr t \<Rightarrow>
                    let c4 = fillText c3 t textX textY;
                        c5 = (if flags cell AND FAINT T \<noteq> 0
                              then c4\<lparr> globalAlpha := Finite 1 \<rparr> else c4)
                    in (None, r\<lparr> ctx := Some (decorations T r c5 cell x y) \<rparr>)))"

text \<open>
  The two loops of \<^verbatim>\<open>renderLine\<close>, each with its body. A cell that is missing from the
  array, or whose width is 0, is skipped by both.
\<close>

definition nth_cell :: "GhosttyCell list \<Rightarrow> nat \<Rightarrow> GhosttyCell option" where
  "nth_cell cells i = (if i < length cells then Some (cells ! i) else None)"

definition pass1_cell ::
  "'ds Types \<Rightarrow> GhosttyCell list \<Rightarrow> nat \<Rightarrow> nat \<Rightarrow> nat \<Rightarrow> CanvasRenderer \<Rightarrow> CanvasRenderer outcome" where
  "pass1_cell T viewportCells' row cols' x r =
     (case nth_cell viewportCells' (row * cols' + x) of
        None \<Rightarrow> (None, r)
      | Some cell \<Rightarrow>
          if cell_width cell = 0 then (None, r)
          else renderCellBackground T r cell x row)"

definition renderLine_pass1 ::
  "'ds Types \<Rightarrow> GhosttyCell list \<Rightarrow> nat \<Rightarrow> nat \<Rightarrow> CanvasRenderer \<Rightarrow> CanvasRenderer outcome" where
  "renderLine_pass1 T viewportCells' row cols' =
     forEach [0 ..< cols'] (pass1_cell T viewportCells' row cols')"

definition pass2_cell ::
  "'ds Types \<Rightarrow> GhosttyCell list \<Rightarrow> nat \<Rightarrow> nat \<Rightarrow> nat \<Rightarrow> CanvasRenderer \<Rightarrow> CanvasRenderer outcome" where
  "pass2_cell T viewportCells' row cols' x r =
     (case nth_cell viewportCells' (row * cols' + x) of
        None \<Rightarrow> (None, r)
      | Some cell \<Rightarrow>
          if cell_width cell = 0 then (None, r)
          else renderCellText T r cell x row)"

definition renderLine_pass2 ::
  "'ds Types \<Rightarrow> GhosttyCell list \<Rightarrow> nat \<Rightarrow> nat \<Rightarrow> CanvasRenderer \<Rightarrow> CanvasRenderer outcome" where
  "renderLine_pass2 T viewportCells' row cols' =
     forEach [0 ..< cols'] (pass2_cell T viewportCells' row cols')"

definition renderLine ::
  "'ds Types \<Rightarrow> CanvasRenderer \<Rightarrow> GhosttyCell list \<Rightarrow> nat \<Rightarrow> nat \<Rightarrow> CanvasRenderer outcome" where
  "renderLine T r viewportCells' row cols' =
     (case requireContext r of
        Inl e \<Rightarrow> (Some e, r)
      | Inr c \<Rightarrow>
          let lineY = of_nat row * height (metrics r);
              c1 = fillRect (c\<lparr> fillStyle := rgbaToCss (theme_background (theme r)) \<rparr>)
                     0 lineY (of_nat cols' * width (metrics r)) (height (metrics r))
          in andThen (renderLine_pass1 T viewportCells' row cols')
               (renderLine_pass2 T viewportCells' row cols')
               (r\<lparr> ctx := Some c1 \<rparr>))"

definition renderCursor :: "CanvasRenderer \<Rightarrow> rat \<Rightarrow> rat \<Rightarrow> CursorStyle \<Rightarrow> CanvasRenderer outcome" where
  "renderCursor r x y style =
     (case requireContext r of
        Inl e \<Rightarrow> (Some e, r)
      | Inr c \<Rightarrow>
          let cursorX' = x * width (metrics r);
              cursorY' = y * height (metrics r);
              c1 = c\<lparr> fillStyle := rgbaToCss (theme_cursor (theme r)) \<rparr>;
              c2 = (case style of
                      CursorBlock \<Rightarrow>
                        fillRect c1 cursorX' cursorY' (width (metrics r)) (height (metrics r))
                    | CursorUnderline \<Rightarrow>
                        let underlineHeight =
                              max 2 (of_int \<lfloor>height (metrics r) * (15 / 100)\<rfloor>)
                        in fillRect c1 cursorX' (cursorY' + height (metrics r) - underlineHeight)
                             (width (metrics r)) underlineHeight
                    | CursorBar \<Rightarrow>
                        let barWidth = max 2 (of_int \<lfloor>width (metrics r) * (15 / 100)\<rfloor>)
                        in fillRect c1 cursorX' cursorY' barWidth (height (metrics r)))
          in (None, r\<lparr> ctx := Some c2 \<rparr>))"

text \<open>
  \<^verbatim>\<open>renderScrollbar\<close>. The quotients are those of the code when the divisor is not zero;
  a device pixel ratio of zero is outside this model. The alpha written into the two
  \<^verbatim>\<open>rgba\<close> fill styles is the exact product of its factors. The code writes the
  product as rounded to a double, so its string differs from the exact one at some
  opacities (0.1 * 0.7 is written 0.06999999999999999); at an opacity that is a power
  of two, such as 1/2, the two agree.
\<close>

definition renderScrollbar ::
  "CanvasRenderer \<Rightarrow> rat \<Rightarrow> rat \<Rightarrow> nat \<Rightarrow> rat \<Rightarrow> CanvasRenderer outcome" where
  "renderScrollbar r viewportY' scrollbackLength' visibleRows opacity =
     (case requireContext r of
        Inl e \<Rightarrow> (Some e, r)
      | Inr c \<Rightarrow>
          (case requireCanvas r of
             Inl e \<Rightarrow> (Some e, r)
           | Inr cv \<Rightarrow>
               let canvasHeight = canvas_height cv / devicePixelRatio r;
                   canvasWidth = canvas_width cv / devicePixelRatio r;
                   scrollbarWidth = 8;
                   scrollbarX = canvasWidth - scrollbarWidth - 4;
                   scrollbarPadding = 4;
                   scrollbarTrackHeight = canvasHeight - scrollbarPadding * 2;
                   c1 = fillRect (c\<lparr> fillStyle := rgbaToCss (theme_background (theme r)) \<rparr>)
                          (scrollbarX - 2) 0 (scrollbarWidth + 6) canvasHeight
               in if opacity \<le> 0 \<or> scrollbackLength' = 0 then (None, r\<lparr> ctx := Some c1 \<rparr>)
                  else
                    let totalLines = scrollbackLength' + of_nat visibleRows;
                        thumbHeight =
                          max 20 ((of_nat visibleRows / totalLines) * scrollbarTrackHeight);
                        scrollPosition = viewportY' / scrollbackLength';
                        thumbY = scrollbarPadding
                                 + (scrollbarTrackHeight - thumbHeight) * (1 - scrollPosition);
                        c2 = fillRect
                               (c1\<lparr> fillStyle := CssRgba (Finite 128) (Finite 128) (Finite 128)
                                                     (Finite ((1 / 10) * opacity)) \<rparr>)
                               scrollbarX scrollbarPadding scrollbarWidth scrollbarTrackHeight;
                        isScrolled = (viewportY' > 0);
                        baseOpacity = (if isScrolled then 5 / 10 else 3 / 10);
                        c3 = fillRect
                               (c2\<lparr> fillStyle := CssRgba (Finite 128) (Finite 128) (Finite 128)
                                                     (Finite (baseOpacity * opacity)) \<rparr>)
                               scrollbarX thumbY scrollbarWidth thumbHeight
                    in (None, r\<lparr> ctx := Some c3 \<rparr>)))"

text \<open>
  \<^verbatim>\<open>render\<close>. The first loop builds the set of rows to paint (\<open>buildRow\<close> is its body),
  the second paints them in ascending order; then the cursor and the scrollbar. The calls into \<^verbatim>\<open>profile\<close> only
  measure time and are left out.
\<close>

definition buildRow :: "'ds RenderInput \<Rightarrow> bool \<Rightarrow> nat \<Rightarrow> nat set \<Rightarrow> nat set" where
  "buildRow input forceAll y S =
     (let flags' = (if y < length (rowFlags input) then rowFlags input ! y else 0);
          needsRender =
            (forceAll
             \<or> flags' AND (ROW_DIRTY OR ROW_HAS_SELECTION OR ROW_HAS_HYPERLINK) \<noteq> 0)
      in if needsRender
         then
           let S1 = insert y S;
               S2 = (if y > 0 then insert (y - 1) S1 else S1);
               S3 = (if y < rows input - 1 then insert (y + 1) S2 else S2)
           in S3
         else S)"

definition rowsToRender :: "'ds Types \<Rightarrow> 'ds RenderInput \<Rightarrow> nat set" where
  "rowsToRender T input =
     (let forceAll = (dirtyState input = FULL T)
      in fold (buildRow input forceAll) [0 ..< rows input] {})"

definition renderRows ::
  "'ds Types \<Rightarrow> 'ds RenderInput \<Rightarrow> nat set \<Rightarrow> CanvasRenderer \<Rightarrow> CanvasRenderer outcome" where
  "renderRows T input S =
     forEach [0 ..< rows input]
       (\<lambda>y r. if y \<notin> S then (None, r)
               else renderLine T r (viewportCells input) y (cols input))"

definition render :: "'ds Types \<Rightarrow> CanvasRenderer \<Rightarrow> 'ds RenderInput \<Rightarrow> CanvasRenderer outcome" where
  "render T r input =
     (case requireContext r of
        Inl e \<Rightarrow> (Some e, r)
      | Inr _ \<Rightarrow>
          let r1 = r\<lparr> theme := input_theme input,
                      currentSelectionRange := selectionRange input,
                      currentHoveredLink := hoveredLink input,
                      currentGetGraphemeString := Some (getGraphemeString input) \<rparr>
          in andThen (renderRows T input (rowsToRender T input))
               (andThen
                  (\<lambda>r'. if cursorVisible input
                         then renderCursor r' (cursorX input) (cursorY input) (cursorStyle input)
                         else (None, r'))
                  (\<lambda>r'. if scrollbarOpacity input > 0 \<and> scrollbackLength input > 0
                         then renderScrollbar r' (viewportY input) (scrollbackLength input)
                                (rows input) (scrollbarOpacity input)
                         else (None, r')))
               r1)"

definition updateTheme :: "CanvasRenderer \<Rightarrow> TerminalTheme \<Rightarrow> CanvasRenderer" where
  "updateTheme r t = r\<lparr> theme := t \<rparr>"

definition setTheme :: "CanvasRenderer \<Rightarrow> ITheme \<Rightarrow> CanvasRenderer" where
  "setTheme r t = r\<lparr> theme := resolveTheme (Some t) \<rparr>"

definition getMetrics :: "CanvasRenderer \<Rightarrow> CellMetrics" where
  "getMetrics r = metrics r"

definition getCanvas :: "CanvasRenderer \<Rightarrow> error + HTMLCanvasElement" where
  "getCanvas r = requireCanvas r"

definition clear :: "CanvasRenderer \<Rightarrow> CanvasRenderer outcome" where
  "clear r =
     (case requireContext r of
        Inl e \<Rightarrow> (Some e, r)
      | Inr c \<Rightarrow>
          (case requireCanvas r of
             Inl e \<Rightarrow> (Some e, r)
           | Inr cv \<Rightarrow>
               let c1 = fillRect (c\<lparr> fillStyle := rgbaToCss (theme_background (theme r)) \<rparr>)
                          0 0 (canvas_width cv) (canvas_height cv)
               in (None, r\<lparr> ctx := Some c1 \<rparr>)))"


section \<open>Notions used to state the properties\<close>

subsection \<open>Theme resolution\<close>

text \<open>A hexadecimal digit, and its value.\<close>

definition isHexDigit :: "nat \<Rightarrow> bool" where
  "isHexDigit c = ((48 \<le> c \<and> c \<le> 57) \<or> (97 \<le> c \<and> c \<le> 102) \<or> (65 \<le> c \<and> c \<le> 70))"

definition hexValue :: "nat \<Rightarrow> nat" where
  "hexValue c = (case digitValue c of Some v \<Rightarrow> v | None \<Rightarrow> 0)"

text \<open>A colour with finite components.\<close>

definition rgba :: "rat \<Rightarrow> rat \<Rightarrow> rat \<Rightarrow> rat \<Rightarrow> RGBA" where
  "rgba x y z w = \<lparr> rgba_r = Finite x, rgba_g = Finite y, rgba_b = Finite z, rgba_a = Finite w \<rparr>"

text \<open>What the caller supplied for a member: nothing at all when there is no override.\<close>

definition supplied :: "ITheme option \<Rightarrow> (ITheme \<Rightarrow> 'a property) \<Rightarrow> 'a property" where
  "supplied th f = (case th of None \<Rightarrow> Absent | Some t \<Rightarrow> f t)"

text \<open>
  A colour slot that falls back to its default \<open>D\<close>: the parsed colour when a string was
  supplied and parses, \<open>D\<close> in every other case.
\<close>

definition slot :: "ITheme option \<Rightarrow> (ITheme \<Rightarrow> jsstring property) \<Rightarrow> RGBA \<Rightarrow> RGBA" where
  "slot th f D =
     (case supplied th f of
        Value s \<Rightarrow> (case parseColor (Some s) of Some c \<Rightarrow> c | None \<Rightarrow> D)
      | _ \<Rightarrow> D)"

text \<open>The override \<^verbatim>\<open>{}\<close>.\<close>

definition emptyTheme :: ITheme where
  "emptyTheme =
     \<lparr> foreground = Absent, background = Absent, cursor = Absent, cursorAccent = Absent,
       selectionBackground = Absent, selectionForeground = Absent, selectionOpacity = Absent \<rparr>"

subsection \<open>Scheduling\<close>

text \<open>
  The entries that a sequence of calls leaves pending, when the first handle to be given
  out is \<open>n\<close>: a scheduled entry stays unless a later call cancels its handle.
\<close>

fun survivors :: "nat \<Rightarrow> call list \<Rightarrow> (nat \<times> PendingRender) list" where
  "survivors n [] = []"
| "survivors n (Schedule cb ts # cs) =
     (if Cancel n \<in> set cs then [] else [(n, \<lparr> callback = cb, scheduledAt = ts \<rparr>)])
     @ survivors (Suc n) cs"
| "survivors n (Cancel h # cs) = survivors n cs"

definition keys :: "(nat \<times> 'v) list \<Rightarrow> nat set" where
  "keys m = fst ` set m"

text \<open>The invocations of a batch, in its order.\<close>

definition invoked :: "number \<Rightarrow> (nat \<times> PendingRender) list \<Rightarrow> event list" where
  "invoked now m = map (\<lambda>e. Invoked (callback e) now (scheduledAt e)) (Map_values m)"

text \<open>Every pending handle has been given out already.\<close>

definition fresh_ids :: "RenderScheduler \<Rightarrow> bool" where
  "fresh_ids s = (\<forall>i \<in> keys (pending s). i < nextId s)"

text \<open>
  The states between two events: with no request armed nothing is pending, and at most
  one request is armed, the one \<open>rafId\<close> holds.
\<close>

definition sched_inv :: "RenderScheduler \<Rightarrow> bool" where
  "sched_inv s =
     (fresh_ids s
      \<and> (case rafId s of
           None \<Rightarrow> pending s = [] \<and> animationFrames s = []
         | Some h \<Rightarrow> animationFrames s = [h]))"

text \<open>What calls of \<^verbatim>\<open>schedule\<close> and \<^verbatim>\<open>cancel\<close> can do to a state.\<close>

definition evolves :: "RenderScheduler \<Rightarrow> RenderScheduler \<Rightarrow> bool" where
  "evolves s s' =
     (nextId s \<le> nextId s'
      \<and> keys (pending s') \<subseteq> keys (pending s) \<union> {nextId s ..< nextId s'}
      \<and> (case rafId s of
           Some h \<Rightarrow> rafId s' = Some h \<and> animationFrames s' = animationFrames s
         | None \<Rightarrow>
             if nextId s < nextId s'
             then \<exists>h. rafId s' = Some h \<and> animationFrames s' = animationFrames s @ [h]
             else rafId s' = None \<and> animationFrames s' = animationFrames s))"

text \<open>
  The calls a callback body makes when the next handle is \<open>n\<close>, and the calls the
  callbacks of a batch make one after the other.
\<close>

primrec calls_of :: "body \<Rightarrow> nat \<Rightarrow> call list" where
  "calls_of Done n = []"
| "calls_of (DoSchedule cb ts k) n = Schedule cb ts # calls_of (k n) (Suc n)"
| "calls_of (DoCancel h p) n = Cancel h # calls_of p n"

definition is_Schedule :: "call \<Rightarrow> bool" where
  "is_Schedule c = (case c of Schedule _ _ \<Rightarrow> True | Cancel _ \<Rightarrow> False)"

definition body_of :: "PendingRender \<Rightarrow> number \<Rightarrow> body" where
  "body_of e now = (case callback e of Callback f \<Rightarrow> f now (scheduledAt e))"

fun calls_during :: "number \<Rightarrow> PendingRender list \<Rightarrow> nat \<Rightarrow> call list" where
  "calls_during now [] n = []"
| "calls_during now (e # es) n =
     calls_of (body_of e now) n
     @ calls_during now es (n + length (filter is_Schedule (calls_of (body_of e now) n)))"

text \<open>
  Three callbacks: one that does nothing, one that schedules the first and cancels it at
  once, one that schedules the first and leaves it.
\<close>

definition cbB :: RenderCallback where
  "cbB = Callback (\<lambda>now ts. Done)"

definition cbA :: RenderCallback where
  "cbA = Callback (\<lambda>now ts. DoSchedule cbB None (\<lambda>h. DoCancel h Done))"

definition cbC :: RenderCallback where
  "cbC = Callback (\<lambda>now ts. DoSchedule cbB (Some now) (\<lambda>h. Done))"

subsection \<open>Rendering\<close>

text \<open>A renderer with a canvas and a context.\<close>
definition attached :: "CanvasRenderer \<Rightarrow> bool" where
  "attached r = (canvas r \<noteq> None \<and> ctx r \<noteq> None)"

definition rowFlag :: "'ds RenderInput \<Rightarrow> nat \<Rightarrow> 8 word" where
  "rowFlag input y = (if y < length (rowFlags input) then rowFlags input ! y else 0)"

definition flagged :: "8 word \<Rightarrow> bool" where
  "flagged f = (f AND ROW_DIRTY \<noteq> 0 \<or> f AND ROW_HAS_SELECTION \<noteq> 0 \<or> f AND ROW_HAS_HYPERLINK \<noteq> 0)"

definition renderedRows :: "'ds Types \<Rightarrow> 'ds RenderInput \<Rightarrow> nat list" where
  "renderedRows T input = filter (\<lambda>y. y \<in> rowsToRender T input) [0 ..< rows input]"


text \<open>
  A step that, on an attached renderer, leaves it attached and ends with one of the
  outcomes \<open>E\<close>.
\<close>

definition ends_in :: "error option set \<Rightarrow> (CanvasRenderer \<Rightarrow> CanvasRenderer outcome) \<Rightarrow> bool" where
  "ends_in E f = (\<forall>r. attached r \<longrightarrow> attached (snd (f r)) \<and> fst (f r) \<in> E)"

text \<open>The cells of a row that are present and are not spacers.\<close>

definition nonSpacer :: "GhosttyCell list \<Rightarrow> nat \<Rightarrow> nat \<Rightarrow> nat \<Rightarrow> bool" where
  "nonSpacer cells row cols' x =
     (case nth_cell cells (row * cols' + x) of None \<Rightarrow> False | Some cell \<Rightarrow> cell_width cell \<noteq> 0)"

text \<open>
  The colour components pass 1 fills a cell with, the rectangle it paints for them under
  the alpha \<open>a\<close> in force (none for the zero sentinel), and the overlay of a selected
  cell.
\<close>

definition backgroundComponents :: "'ds Types \<Rightarrow> GhosttyCell \<Rightarrow> nat \<times> nat \<times> nat" where
  "backgroundComponents T cell =
     (if flags cell AND INVERSE T \<noteq> 0 then (fg_r cell, fg_g cell, fg_b cell)
      else (bg_r cell, bg_g cell, bg_b cell))"

definition backgroundFill ::
  "'ds Types \<Rightarrow> CanvasRenderer \<Rightarrow> number \<Rightarrow> GhosttyCell \<Rightarrow> nat \<Rightarrow> nat \<Rightarrow> draw list" where
  "backgroundFill T r a cell x y =
     (case backgroundComponents T cell of
        (R, G, B) \<Rightarrow>
          if R = 0 \<and> G = 0 \<and> B = 0 then []
          else [FillRect (rgbToCSS R G B) a
                  (of_nat x * width (metrics r)) (of_nat y * height (metrics r))
                  (width (metrics r) * of_nat (cell_width cell)) (height (metrics r))])"

definition selectionOverlay :: "CanvasRenderer \<Rightarrow> GhosttyCell \<Rightarrow> nat \<Rightarrow> nat \<Rightarrow> draw list" where
  "selectionOverlay r cell x y =
     (if isInSelection r x y
      then [FillRect (rgbaToCss (theme_selectionBackground (theme r)))
              (theme_selectionOpacity (theme r))
              (of_nat x * width (metrics r)) (of_nat y * height (metrics r))
              (width (metrics r) * of_nat (cell_width cell)) (height (metrics r))]
      else [])"

text \<open>The context of an attached renderer.\<close>

definition the_ctx :: "CanvasRenderer \<Rightarrow> Context2D" where
  "the_ctx r = (case ctx r of Some c \<Rightarrow> c | None \<Rightarrow> undefined)"


text \<open>The state \<^verbatim>\<open>renderLine\<close> hands to its first loop: the row cleared to the theme background.\<close>

definition clearedRow :: "CanvasRenderer \<Rightarrow> nat \<Rightarrow> nat \<Rightarrow> CanvasRenderer" where
  "clearedRow r row cols' =
     r\<lparr> ctx := Some (fillRect ((the_ctx r)\<lparr> fillStyle := rgbaToCss (theme_background (theme r)) \<rparr>)
                       0 (of_nat row * height (metrics r)) (of_nat cols' * width (metrics r))
                       (height (metrics r))) \<rparr>"

text \<open>What pass 1 paints for the cell in column \<open>x\<close> of a row.\<close>

definition cellBackground ::
  "'ds Types \<Rightarrow> CanvasRenderer \<Rightarrow> GhosttyCell list \<Rightarrow> nat \<Rightarrow> nat \<Rightarrow> nat \<Rightarrow> draw list" where
  "cellBackground T r cells row cols' x =
     backgroundFill T r (Finite 1) (cells ! (row * cols' + x)) x row
     @ selectionOverlay r (cells ! (row * cols' + x)) x row"


text \<open>
  What was painted between two states of a renderer: the entries of the later log that
  come after those of the earlier one.
\<close>

definition painted :: "CanvasRenderer \<Rightarrow> CanvasRenderer \<Rightarrow> draw list" where
  "painted r r' = drop (length (drawn (the_ctx r))) (drawn (the_ctx r'))"

text \<open>
  The renderer as \<^verbatim>\<open>render\<close> leaves it before its loops: the theme, the selection, the
  hovered link and the grapheme lookup of the frame are stored in it.
\<close>

definition withFrame :: "CanvasRenderer \<Rightarrow> 'ds RenderInput \<Rightarrow> CanvasRenderer" where
  "withFrame r input =
     r\<lparr> theme := input_theme input,
        currentSelectionRange := selectionRange input,
        currentHoveredLink := hoveredLink input,
        currentGetGraphemeString := Some (getGraphemeString input) \<rparr>"

text \<open>The entries of a log that are filled rectangles.\<close>

fun isFillRect :: "draw \<Rightarrow> bool" where
  "isFillRect (FillRect s a x y w h) = True"
| "isFillRect _ = False"

text \<open>
  The text \<open>t\<close> of the cell in column \<open>x\<close> of row \<open>y\<close>, as pass 2 paints it in a given
  colour: in the font of the cell's style flags, at half alpha for a faint cell, on the
  baseline of the row.
\<close>

definition glyph ::
  "'ds Types \<Rightarrow> CanvasRenderer \<Rightarrow> css \<Rightarrow> GhosttyCell \<Rightarrow> jsstring \<Rightarrow> nat \<Rightarrow> nat \<Rightarrow> draw" where
  "glyph T r colour cell t x y =
     FillText colour (if flags cell AND FAINT T \<noteq> 0 then Finite (1 / 2) else Finite 1)
       (Font ((if flags cell AND ITALIC T \<noteq> 0 then ''italic '' else [])
              @ (if flags cell AND BOLD T \<noteq> 0 then ''bold '' else []))
          (fontSize r) (fontFamily r))
       t (of_nat x * width (metrics r)) (of_nat y * height (metrics r) + baseline (metrics r))"

text \<open>
  Notions of the proofs. A renderer is \<open>ready\<close> when it is attached and its context has
  alpha 1. A state is \<open>later\<close> than another when it is attached, differs from it in the
  context only, and its log begins with the log of the other. A step \<open>steps\<close> when, from
  a ready renderer, it ends in a later state, which is ready again if the step returned
  normally; it is \<open>quiet\<close> when it paints no rectangle.
\<close>

definition ready :: "CanvasRenderer \<Rightarrow> bool" where
  "ready r = (attached r \<and> globalAlpha (the_ctx r) = Finite 1)"

definition later :: "CanvasRenderer \<Rightarrow> CanvasRenderer \<Rightarrow> bool" where
  "later r r' = (attached r' \<and> r' = r\<lparr> ctx := ctx r' \<rparr>
                 \<and> (\<exists>ds. drawn (the_ctx r') = drawn (the_ctx r) @ ds))"

definition steps :: "(CanvasRenderer \<Rightarrow> CanvasRenderer outcome) \<Rightarrow> bool" where
  "steps f = (\<forall>r. ready r \<longrightarrow> later r (snd (f r)) \<and> (fst (f r) = None \<longrightarrow> ready (snd (f r))))"

definition quiet :: "(CanvasRenderer \<Rightarrow> CanvasRenderer outcome) \<Rightarrow> bool" where
  "quiet f = (\<forall>r. ready r \<longrightarrow> filter isFillRect (painted r (snd (f r))) = [])"


subsection \<open>A renderer, a canvas and a frame to evaluate on\<close>

text \<open>
  Values for the constants of \<^verbatim>\<open>types\<close>, a theme with the default colours, a fresh
  context, a canvas of the default size, a renderer that was constructed without a canvas
  (its font measures 10 by 20), the same renderer attached to the canvas, and a frame of
  four rows of three cells in which only row 1 is dirty.
\<close>

definition T0 :: "nat Types" where
  "T0 = \<lparr> FULL = 2, BOLD = 1, ITALIC = 2, UNDERLINE = 4, STRIKETHROUGH = 8, INVERSE = 16,
          INVISIBLE = 32, FAINT = 128 \<rparr>"

definition exampleTheme :: TerminalTheme where
  "exampleTheme =
     \<lparr> theme_foreground = rgba 212 212 212 1, theme_background = rgba 30 30 30 1,
       theme_cursor = rgba 255 255 255 1, theme_cursorAccent = rgba 30 30 30 1,
       theme_selectionBackground = rgba 212 212 212 1,
       theme_selectionForeground = Some (rgba 30 30 30 1),
       theme_selectionOpacity = Finite (4 / 10) \<rparr>"

definition blankContext :: Context2D where
  "blankContext =
     \<lparr> fillStyle = CssLiteral ''#000000'', strokeStyle = CssLiteral ''#000000'',
       globalAlpha = Finite 1, lineWidth = 1, font = Font [] 10 (str ''sans-serif''),
       textBaseline = ''alphabetic'', textAlign = ''start'', currentPath = [],
       scaleFactors = (1, 1), drawn = [] \<rparr>"

definition exampleCanvas :: HTMLCanvasElement where
  "exampleCanvas =
     \<lparr> canvas_width = 300, canvas_height = 150, style_width = 300, style_height = 150,
       context2d = Some blankContext \<rparr>"

definition unattachedRenderer :: CanvasRenderer where
  "unattachedRenderer =
     \<lparr> canvas = None, ctx = None, fontSize = 15, fontFamily = str ''monospace'',
       theme = exampleTheme, devicePixelRatio = 1,
       metrics = \<lparr> width = 10, height = 20, baseline = 16 \<rparr>,
       currentSelectionRange = None, currentHoveredLink = None,
       currentGetGraphemeString = None \<rparr>"

definition attachedRenderer :: CanvasRenderer where
  "attachedRenderer = unattachedRenderer\<lparr> canvas := Some exampleCanvas, ctx := Some blankContext \<rparr>"

definition plainCell :: GhosttyCell where
  "plainCell =
     \<lparr> codepoint = 65, fg_r = 212, fg_g = 212, fg_b = 212, bg_r = 0, bg_g = 0, bg_b = 0,
       flags = 0, cell_width = 1, hyperlink_id = 0, grapheme_len = 0 \<rparr>"

definition exampleInput :: "nat RenderInput" where
  "exampleInput =
     \<lparr> cols = 3, rows = 4, viewportCells = replicate 12 plainCell,
       rowFlags = [0, ROW_DIRTY, 0, 0], dirtyState = 1,
       selectionRange = None, hoveredLink = None, cursorX = 0, cursorY = 0,
       cursorVisible = False, cursorStyle = CursorBlock,
       getGraphemeString = (\<lambda>row col. []), input_theme = exampleTheme,
       viewportY = 0, scrollbackLength = 100, scrollbarOpacity = 1 / 2 \<rparr>"

text \<open>A frame in which nothing is dirty and the cursor is hidden, at a scrollbar opacity.\<close>

definition fadeInput :: "rat \<Rightarrow> nat RenderInput" where
  "fadeInput opacity = exampleInput\<lparr> rowFlags := [0, 0, 0, 0], scrollbarOpacity := opacity \<rparr>"

text \<open>The attached renderer after a frame that painted only the scrollbar, at opacity 1/2.\<close>

definition fadedRenderer :: CanvasRenderer where
  "fadedRenderer =
     attachedRenderer
       \<lparr> ctx := Some (blankContext
           \<lparr> fillStyle := CssRgba (Finite 128) (Finite 128) (Finite 128) (Finite (3 / 20)),
             drawn :=
               [FillRect (CssRgb (Finite 30) (Finite 30) (Finite 30)) (Finite 1) 286 0 14 150,
                FillRect (CssRgba (Finite 128) (Finite 128) (Finite 128) (Finite (1 / 20)))
                  (Finite 1) 288 4 8 142,
                FillRect (CssRgba (Finite 128) (Finite 128) (Finite 128) (Finite (3 / 20)))
                  (Finite 1) 288 126 8 20] \<rparr>),
         currentGetGraphemeString := Some (\<lambda>row col. []) \<rparr>"

text \<open>
  The full-repaint frame of four rows in which the first cell holds a number above
  0x10FFFF, which is no code point.
\<close>

definition invalidInput :: "nat RenderInput" where
  "invalidInput =
     exampleInput\<lparr> dirtyState := 2,
       viewportCells := plainCell\<lparr> codepoint := 1114112 \<rparr> # replicate 11 plainCell \<rparr>"

text \<open>
  A row of three cells: a plain cell, a wide glyph (width 2) and the spacer (width 0)
  that follows it; a frame of that one row with a selection and no scrollback; and the
  same frame, the wide glyph selected, under the theme resolved from no override.
\<close>

definition wideRow :: "GhosttyCell list" where
  "wideRow = [plainCell, plainCell\<lparr> codepoint := 19990, cell_width := 2 \<rparr>,
              plainCell\<lparr> codepoint := 0, cell_width := 0 \<rparr>]"

definition wideInput :: "SelectionRange \<Rightarrow> nat RenderInput" where
  "wideInput sel =
     exampleInput\<lparr> rows := 1, viewportCells := wideRow, rowFlags := [ROW_HAS_SELECTION],
       selectionRange := Some sel, scrollbackLength := 0 \<rparr>"

definition defaultThemeInput :: "nat RenderInput" where
  "defaultThemeInput =
     (wideInput \<lparr> startCol = 1, startRow = 0, endCol = 1, endRow = 0 \<rparr>)
       \<lparr> input_theme := resolveTheme None \<rparr>"


section \<open>Properties of theme resolution\<close>

lemma str_simps: "str [] = []" "str (c # cs) = of_char c # str cs"
  by (simp_all add: str_def)

lemmas eval_hex = parseColor_def str_simps startsWith_def parseHexColor_def trim_def
  isWhiteSpace_def slice_def Let_def parseInt_def isRadixDigit_def digitValue_def
  digitsValue_def Number_isNaN_def clampByte_def clampAlpha_def Number_isFinite_def
  js_gt_def js_div_lit_def

lemma parse_d4: "parseColor (Some (str ''#d4d4d4'')) = Some (rgba 212 212 212 1)"
  by (simp add: eval_hex rgba_def)

lemma parse_1e: "parseColor (Some (str ''#1e1e1e'')) = Some (rgba 30 30 30 1)"
  by (simp add: eval_hex rgba_def)

lemma parse_ff: "parseColor (Some (str ''#ffffff'')) = Some (rgba 255 255 255 1)"
  by (simp add: eval_hex rgba_def)

lemma parse_fff: "parseColor (Some (str ''#fff'')) = Some (rgba 255 255 255 1)"
  by (simp add: eval_hex rgba_def)

lemma parse_red: "parseColor (Some (str ''red'')) = None"
  by (simp add: parseColor_def str_simps startsWith_def matchRgb_def)

lemma default_of_simps:
  "default_of foreground = str ''#d4d4d4''"
  "default_of background = str ''#1e1e1e''"
  "default_of cursor = str ''#ffffff''"
  "default_of cursorAccent = str ''#1e1e1e''"
  "default_of selectionBackground = str ''#d4d4d4''"
  "default_of selectionForeground = str ''#1e1e1e''"
  by (simp_all add: default_of_def DEFAULT_THEME_def)

lemma merged_supplied:
  "merged th f =
     (case supplied th f of
        Absent \<Rightarrow> (case f DEFAULT_THEME of Value d \<Rightarrow> Some d | _ \<Rightarrow> None)
      | Undefined \<Rightarrow> None
      | Value x \<Rightarrow> Some x)"
  by (simp add: merged_def supplied_def)

lemma theme_member_supplied:
  "theme_member th f = (case supplied th f of Value x \<Rightarrow> Some x | _ \<Rightarrow> None)"
  by (simp add: theme_member_def supplied_def split: option.splits)

lemma parseColor_None [simp]: "parseColor None = None"
  by (simp add: parseColor_def)

lemma resolveColor_slot:
  assumes "f DEFAULT_THEME = Value d" "default_of f = d" "parseColor (Some d) = Some D"
  shows "resolveColor (merged th f) (default_of f) = slot th f D"
  using assms
  by (simp add: resolveColor_def merged_supplied slot_def split: property.splits option.splits)

lemma normalizeOpacity_cases:
  "normalizeOpacity (theme_member th selectionOpacity) =
     (case supplied th selectionOpacity of
        Value (Finite x) \<Rightarrow> Finite (max 0 (min 1 x))
      | _ \<Rightarrow> Finite (4 / 10))"
  by (auto simp add: normalizeOpacity_def theme_member_supplied DEFAULT_SELECTION_OPACITY_def
      clampAlpha_def Number_isFinite_def js_gt_def max_def min_def
      split: property.splits number.splits)

lemma selectionForeground_cases:
  "theme_selectionForeground (resolveTheme th) =
     (case supplied th selectionForeground of
        Absent \<Rightarrow> Some (rgba 30 30 30 1)
      | Undefined \<Rightarrow> None
      | Value s \<Rightarrow> if s = [] \<or> s = str ''undefined'' then None else parseColor (Some s))"
proof -
  have d: "selectionForeground DEFAULT_THEME = Value (str ''#1e1e1e'')"
    by (simp add: DEFAULT_THEME_def)
  have ne: "str ''#1e1e1e'' \<noteq> []" "str ''#1e1e1e'' \<noteq> str ''undefined''"
    by (simp_all add: str_simps)
  show ?thesis
    by (simp add: resolveTheme_def theme_member_supplied merged_supplied d
        resolveOptionalColor_def ne parse_1e split: property.splits)
qed

lemma resolveTheme_sel:
  "theme_foreground (resolveTheme t) = resolveColor (merged t foreground) (default_of foreground)"
  "theme_background (resolveTheme t) = resolveColor (merged t background) (default_of background)"
  "theme_cursor (resolveTheme t) = resolveColor (merged t cursor) (default_of cursor)"
  "theme_cursorAccent (resolveTheme t) =
     resolveColor (merged t cursorAccent) (default_of cursorAccent)"
  "theme_selectionBackground (resolveTheme t) =
     resolveColor (merged t selectionBackground) (default_of selectionBackground)"
  "theme_selectionOpacity (resolveTheme t) = normalizeOpacity (theme_member t selectionOpacity)"
  by (simp_all add: resolveTheme_def)

lemma supplied_Some: "supplied (Some t) f = f t"
  by (simp add: supplied_def)

text \<open>
  C4, as the code has it. For every override, also none at all, \<open>resolveTheme\<close> returns a
  theme (the model has no failing branch: nothing in \<^verbatim>\<open>theme.ts\<close> throws). Each of
  foreground, background, cursor, cursorAccent and selectionBackground is the parsed
  colour when a string was supplied and parses, and the built-in default of the slot in
  every other case. The selection opacity is 0.4 when none was supplied or the supplied
  one is not finite, and the supplied one clamped to [0, 1] otherwise. The selection
  foreground is the one slot that does not fall back: it is the default only when the
  member is omitted, and \<^verbatim>\<open>null\<close> when the member is present and \<^verbatim>\<open>undefined\<close>, empty,
  the string \<^verbatim>\<open>undefined\<close>, or does not parse.
\<close>

theorem resolveTheme_total:
  "theme_foreground (resolveTheme th) = slot th foreground (rgba 212 212 212 1)
   \<and> theme_background (resolveTheme th) = slot th background (rgba 30 30 30 1)
   \<and> theme_cursor (resolveTheme th) = slot th cursor (rgba 255 255 255 1)
   \<and> theme_cursorAccent (resolveTheme th) = slot th cursorAccent (rgba 30 30 30 1)
   \<and> theme_selectionBackground (resolveTheme th)
       = slot th selectionBackground (rgba 212 212 212 1)
   \<and> theme_selectionForeground (resolveTheme th) =
       (case supplied th selectionForeground of
          Absent \<Rightarrow> Some (rgba 30 30 30 1)
        | Undefined \<Rightarrow> None
        | Value s \<Rightarrow> if s = [] \<or> s = str ''undefined'' then None else parseColor (Some s))
   \<and> theme_selectionOpacity (resolveTheme th) =
       (case supplied th selectionOpacity of
          Value (Finite x) \<Rightarrow> Finite (max 0 (min 1 x))
        | _ \<Rightarrow> Finite (4 / 10))"
proof (intro conjI)
  show "theme_foreground (resolveTheme th) = slot th foreground (rgba 212 212 212 1)"
    unfolding resolveTheme_sel
    by (rule resolveColor_slot[OF _ default_of_simps(1) parse_d4]) (simp add: DEFAULT_THEME_def)
  show "theme_background (resolveTheme th) = slot th background (rgba 30 30 30 1)"
    unfolding resolveTheme_sel
    by (rule resolveColor_slot[OF _ default_of_simps(2) parse_1e]) (simp add: DEFAULT_THEME_def)
  show "theme_cursor (resolveTheme th) = slot th cursor (rgba 255 255 255 1)"
    unfolding resolveTheme_sel
    by (rule resolveColor_slot[OF _ default_of_simps(3) parse_ff]) (simp add: DEFAULT_THEME_def)
  show "theme_cursorAccent (resolveTheme th) = slot th cursorAccent (rgba 30 30 30 1)"
    unfolding resolveTheme_sel
    by (rule resolveColor_slot[OF _ default_of_simps(4) parse_1e]) (simp add: DEFAULT_THEME_def)
  show "theme_selectionBackground (resolveTheme th)
       = slot th selectionBackground (rgba 212 212 212 1)"
    unfolding resolveTheme_sel
    by (rule resolveColor_slot[OF _ default_of_simps(5) parse_d4]) (simp add: DEFAULT_THEME_def)
  show "theme_selectionForeground (resolveTheme th) =
       (case supplied th selectionForeground of
          Absent \<Rightarrow> Some (rgba 30 30 30 1)
        | Undefined \<Rightarrow> None
        | Value s \<Rightarrow> if s = [] \<or> s = str ''undefined'' then None else parseColor (Some s))"
    by (rule selectionForeground_cases)
  show "theme_selectionOpacity (resolveTheme th) =
       (case supplied th selectionOpacity of
          Value (Finite x) \<Rightarrow> Finite (max 0 (min 1 x))
        | _ \<Rightarrow> Finite (4 / 10))"
    unfolding resolveTheme_sel by (rule normalizeOpacity_cases)
qed

text \<open>
  The theorem at overrides that set one member each: the opacities -1, 2 and NaN resolve
  to 0, 1 and 0.4, an unparseable foreground to the default foreground, a shorthand
  cursor colour to its value.
\<close>

theorem resolveTheme_total_witness:
  "theme_selectionOpacity
      (resolveTheme (Some (emptyTheme\<lparr> selectionOpacity := Value (Finite (- 1)) \<rparr>))) = Finite 0
   \<and> theme_selectionOpacity
      (resolveTheme (Some (emptyTheme\<lparr> selectionOpacity := Value (Finite 2) \<rparr>))) = Finite 1
   \<and> theme_selectionOpacity
      (resolveTheme (Some (emptyTheme\<lparr> selectionOpacity := Value NaN \<rparr>))) = Finite (4 / 10)
   \<and> theme_selectionOpacity (resolveTheme None) = Finite (4 / 10)
   \<and> theme_foreground
      (resolveTheme (Some (emptyTheme\<lparr> foreground := Value (str ''red'') \<rparr>)))
        = rgba 212 212 212 1
   \<and> theme_cursor
      (resolveTheme (Some (emptyTheme\<lparr> cursor := Value (str ''#fff'') \<rparr>)))
        = rgba 255 255 255 1"
  using resolveTheme_total [of "Some (emptyTheme\<lparr> selectionOpacity := Value (Finite (- 1)) \<rparr>)"]
    resolveTheme_total [of "Some (emptyTheme\<lparr> selectionOpacity := Value (Finite 2) \<rparr>)"]
    resolveTheme_total [of "Some (emptyTheme\<lparr> selectionOpacity := Value NaN \<rparr>)"]
    resolveTheme_total [of None]
    resolveTheme_total [of "Some (emptyTheme\<lparr> foreground := Value (str ''red'') \<rparr>)"]
    resolveTheme_total [of "Some (emptyTheme\<lparr> cursor := Value (str ''#fff'') \<rparr>)"]
  by (simp add: supplied_def slot_def emptyTheme_def parse_red parse_fff)

text \<open>
  C4 as stated fails on the selection foreground: the unparseable string \<^verbatim>\<open>red\<close> there
  resolves to \<^verbatim>\<open>null\<close>, not to the colour of the slot's default \<^verbatim>\<open>#1e1e1e\<close>.
\<close>

theorem resolveTheme_selectionForeground_counterexample:
  "parseColor (Some (str ''red'')) = None
   \<and> parseColor (Some (default_of selectionForeground)) = Some (rgba 30 30 30 1)
   \<and> theme_selectionForeground
        (resolveTheme (Some (emptyTheme\<lparr> selectionForeground := Value (str ''red'') \<rparr>))) = None"
proof -
  have "str ''red'' \<noteq> []" "str ''red'' \<noteq> str ''undefined''"
    by (simp_all add: str_simps)
  then show ?thesis
    by (simp add: parse_red default_of_simps parse_1e selectionForeground_cases supplied_Some
        emptyTheme_def)
qed

lemma rgbaToCss_opaque: "rgbaToCss (rgba x y z 1) = CssRgb (Finite x) (Finite y) (Finite z)"
  by (simp add: rgbaToCss_def rgba_def clampAlpha_def Number_isFinite_def js_gt_def js_ge_def
      Number_isNaN_def)

lemma textStyle_selected:
  assumes "theme_selectionForeground (theme r) = Some selFg" and "isInSelection r x y"
  shows "fillStyle (textStyle T r c cell x y) = rgbaToCss selFg"
  using assms by (simp add: textStyle_def Let_def)

lemma hex_not_ws: "isHexDigit c \<Longrightarrow> \<not> isWhiteSpace c"
  by (auto simp: isHexDigit_def isWhiteSpace_def)

lemma hex_radix: "isHexDigit c \<Longrightarrow> isRadixDigit 16 c \<and> hexValue c < 16"
  by (auto simp: isHexDigit_def isRadixDigit_def digitValue_def hexValue_def)

lemma hex_not_sign: "isHexDigit c \<Longrightarrow> c \<noteq> 43 \<and> c \<noteq> 45 \<and> c \<noteq> 120 \<and> c \<noteq> 88"
  by (auto simp: isHexDigit_def)

lemma parseInt_doubled:
  assumes "isHexDigit c"
  shows "parseInt [c, c] 16 = Finite (of_nat (17 * hexValue c))"
proof -
  have v: "digitsValue 16 [c, c] = 17 * hexValue c"
    by (simp add: digitsValue_def hexValue_def)
  show ?thesis
    using hex_not_ws[OF assms] hex_not_sign[OF assms] hex_radix[OF assms]
    by (simp add: parseInt_def str_simps v Let_def)
qed

lemma trim_id:
  assumes "s \<noteq> []" "\<not> isWhiteSpace (hd s)" "\<not> isWhiteSpace (last s)"
  shows "trim s = s"
proof -
  have 1: "dropWhile isWhiteSpace s = s"
    using assms by (cases s) auto
  have 2: "dropWhile isWhiteSpace (rev s) = rev s"
    using assms by (cases "rev s") (auto simp: hd_rev)
  show ?thesis by (simp add: trim_def 1 2)
qed

lemma parseInt_ff: "parseInt (str ''ff'') 16 = Finite 255"
  by (simp add: parseInt_def str_simps isWhiteSpace_def isRadixDigit_def digitValue_def
      digitsValue_def)

lemma clampByte_17:
  assumes "v < 16"
  shows "clampByte (Finite (17 * of_nat v)) = Finite (17 * of_nat v)"
proof -
  have "17 * v \<le> 255" using assms by simp
  then have "(of_nat (17 * v) :: rat) \<le> of_nat 255" by (simp only: of_nat_le_iff)
  then show ?thesis
    by (simp add: clampByte_def Number_isFinite_def js_gt_def)
qed

lemma clampAlpha_17:
  assumes "v < 16"
  shows "clampAlpha (js_div_lit (Finite (17 * of_nat v)) 255) = Finite (of_nat v / 15)"
proof -
  have "v \<le> 15" using assms by simp
  then have "(of_nat v :: rat) \<le> of_nat 15" by (simp only: of_nat_le_iff)
  then show ?thesis
    by (simp add: clampAlpha_def js_div_lit_def Number_isFinite_def js_gt_def)
qed

lemma hex3:
  assumes "isHexDigit c1" "isHexDigit c2" "isHexDigit c3"
  shows "parseHexColor [35, c1, c2, c3] =
     Some (rgba (17 * of_nat (hexValue c1)) (17 * of_nat (hexValue c2))
             (17 * of_nat (hexValue c3)) 1)"
  using assms hex_radix[OF assms(1)] hex_radix[OF assms(2)] hex_radix[OF assms(3)]
  by (simp add: parseHexColor_def trim_id hex_not_ws slice_def Let_def parseInt_doubled
      parseInt_ff Number_isNaN_def clampByte_17 rgba_def clampAlpha_def js_div_lit_def
      Number_isFinite_def js_gt_def)

lemma hex4:
  assumes "isHexDigit c1" "isHexDigit c2" "isHexDigit c3" "isHexDigit c4"
  shows "parseHexColor [35, c1, c2, c3, c4] =
     Some (rgba (17 * of_nat (hexValue c1)) (17 * of_nat (hexValue c2))
             (17 * of_nat (hexValue c3)) (of_nat (hexValue c4) / 15))"
  using assms hex_radix[OF assms(1)] hex_radix[OF assms(2)] hex_radix[OF assms(3)]
    hex_radix[OF assms(4)]
  by (simp add: parseHexColor_def trim_id hex_not_ws slice_def Let_def parseInt_doubled
      Number_isNaN_def clampByte_17 rgba_def clampAlpha_17)

lemma hex36:
  "isHexDigit c1 \<Longrightarrow> isHexDigit c3 \<Longrightarrow>
   parseHexColor [35, c1, c2, c3] = parseHexColor [35, c1, c1, c2, c2, c3, c3]"
  by (simp add: parseHexColor_def trim_id hex_not_ws slice_def Let_def)

lemma hex48:
  "isHexDigit c1 \<Longrightarrow> isHexDigit c4 \<Longrightarrow>
   parseHexColor [35, c1, c2, c3, c4] = parseHexColor [35, c1, c1, c2, c2, c3, c3, c4, c4]"
  by (simp add: parseHexColor_def trim_id hex_not_ws slice_def Let_def)

lemma parseColor_hash: "parseColor (Some (35 # c # s)) = parseHexColor (35 # c # s)"
  by (simp add: parseColor_def startsWith_def str_simps)

lemma matchRgb_example:
  "matchRgb (str ''rgba(10,20,30,0.5)'') =
     Some (str ''10'', str ''20'', str ''30'', Some (str ''0.5''))"
  by (simp add: matchRgb_def str_simps startsWith_def expect_def skipWs_def digits13_def
      isDigit_def isWhiteSpace_def isAlphaChannelChar_def)

lemma parseInt_examples:
  "parseInt (str ''10'') 10 = Finite 10" "parseInt (str ''20'') 10 = Finite 20"
  "parseInt (str ''30'') 10 = Finite 30"
  by (simp_all add: parseInt_def str_simps isWhiteSpace_def isRadixDigit_def digitValue_def
      digitsValue_def)

lemma parseFloat_example: "parseFloat (str ''0.5'') = Finite (1 / 2)"
  by (simp add: parseFloat_def str_simps isWhiteSpace_def isDigit_def digitsValue_def
      digitValue_def parseExponent_def pow10_def)

lemma parse_rgba_example:
  "parseColor (Some (str ''rgba(10,20,30,0.5)'')) = Some (rgba 10 20 30 (1 / 2))"
proof -
  have "str ''rgba(10,20,30,0.5)'' \<noteq> []"
    "\<not> startsWith (str ''rgba(10,20,30,0.5)'') (str ''#'')"
    by (simp_all add: str_simps startsWith_def)
  then show ?thesis
    by (simp add: parseColor_def matchRgb_example parseInt_examples parseFloat_example
        clampByte_def clampAlpha_def Number_isFinite_def js_gt_def rgba_def)
qed

text \<open>
  C9. A three-digit hexadecimal colour parses to the same value as the six-digit colour
  with each digit doubled, a four-digit one to the same value as its eight-digit
  doubling (each component is 17 times its digit, the alpha a fifteenth of its digit);
  so \<^verbatim>\<open>#fff\<close> and \<^verbatim>\<open>#ffffff\<close> are the same colour; and \<^verbatim>\<open>rgba(10,20,30,0.5)\<close> parses to
  exactly r = 10, g = 20, b = 30, a = 0.5.
\<close>

theorem parseColor_shorthand_rgba:
  "(isHexDigit c1 \<and> isHexDigit c2 \<and> isHexDigit c3 \<longrightarrow>
      parseColor (Some (str ''#'' @ [c1, c2, c3])) =
        parseColor (Some (str ''#'' @ [c1, c1, c2, c2, c3, c3]))
      \<and> parseColor (Some (str ''#'' @ [c1, c2, c3])) =
          Some (rgba (17 * of_nat (hexValue c1)) (17 * of_nat (hexValue c2))
                  (17 * of_nat (hexValue c3)) 1))
   \<and> (isHexDigit c1 \<and> isHexDigit c2 \<and> isHexDigit c3 \<and> isHexDigit c4 \<longrightarrow>
      parseColor (Some (str ''#'' @ [c1, c2, c3, c4])) =
        parseColor (Some (str ''#'' @ [c1, c1, c2, c2, c3, c3, c4, c4]))
      \<and> parseColor (Some (str ''#'' @ [c1, c2, c3, c4])) =
          Some (rgba (17 * of_nat (hexValue c1)) (17 * of_nat (hexValue c2))
                  (17 * of_nat (hexValue c3)) (of_nat (hexValue c4) / 15)))
   \<and> parseColor (Some (str ''#fff'')) = parseColor (Some (str ''#ffffff''))
   \<and> parseColor (Some (str ''rgba(10,20,30,0.5)'')) = Some (rgba 10 20 30 (1 / 2))"
proof (intro conjI impI)
  assume h: "isHexDigit c1 \<and> isHexDigit c2 \<and> isHexDigit c3"
  show "parseColor (Some (str ''#'' @ [c1, c2, c3])) =
        parseColor (Some (str ''#'' @ [c1, c1, c2, c2, c3, c3]))"
    using h by (simp add: str_simps parseColor_hash hex36)
  show "parseColor (Some (str ''#'' @ [c1, c2, c3])) =
          Some (rgba (17 * of_nat (hexValue c1)) (17 * of_nat (hexValue c2))
                  (17 * of_nat (hexValue c3)) 1)"
    using h by (simp add: str_simps parseColor_hash hex3)
next
  assume h: "isHexDigit c1 \<and> isHexDigit c2 \<and> isHexDigit c3 \<and> isHexDigit c4"
  show "parseColor (Some (str ''#'' @ [c1, c2, c3, c4])) =
        parseColor (Some (str ''#'' @ [c1, c1, c2, c2, c3, c3, c4, c4]))"
    using h by (simp add: str_simps parseColor_hash hex48)
  show "parseColor (Some (str ''#'' @ [c1, c2, c3, c4])) =
          Some (rgba (17 * of_nat (hexValue c1)) (17 * of_nat (hexValue c2))
                  (17 * of_nat (hexValue c3)) (of_nat (hexValue c4) / 15))"
    using h by (simp add: str_simps parseColor_hash hex4)
next
  show "parseColor (Some (str ''#fff'')) = parseColor (Some (str ''#ffffff''))"
    by (simp only: parse_ff parse_fff)
next
  show "parseColor (Some (str ''rgba(10,20,30,0.5)'')) = Some (rgba 10 20 30 (1 / 2))"
    by (rule parse_rgba_example)
qed

theorem parseColor_shorthand_rgba_witness:
  "parseColor (Some (str ''#abc'')) = parseColor (Some (str ''#aabbcc''))
   \<and> parseColor (Some (str ''#abc'')) = Some (rgba 170 187 204 1)
   \<and> parseColor (Some (str ''#abcd'')) = parseColor (Some (str ''#aabbccdd''))
   \<and> parseColor (Some (str ''#abcd'')) = Some (rgba 170 187 204 (13 / 15))"
proof -
  have d: "isHexDigit 97" "isHexDigit 98" "isHexDigit 99" "isHexDigit 100"
    by (simp_all add: isHexDigit_def)
  have v: "hexValue 97 = 10" "hexValue 98 = 11" "hexValue 99 = 12" "hexValue 100 = 13"
    by (simp_all add: hexValue_def digitValue_def)
  have s: "str ''#abc'' = str ''#'' @ [97, 98, 99]"
    "str ''#aabbcc'' = str ''#'' @ [97, 97, 98, 98, 99, 99]"
    "str ''#abcd'' = str ''#'' @ [97, 98, 99, 100]"
    "str ''#aabbccdd'' = str ''#'' @ [97, 97, 98, 98, 99, 99, 100, 100]"
    by (simp_all add: str_simps)
  have n: "17 * rat_of_nat 10 = 170" "17 * rat_of_nat 11 = 187" "17 * rat_of_nat 12 = 204"
    "rat_of_nat 13 / 15 = 13 / 15"
    by simp_all
  show ?thesis
    unfolding s using parseColor_shorthand_rgba [of 97 98 99 100] d
    unfolding v n by blast
qed


section \<open>Properties of the scheduler\<close>

lemma Map_set_fresh: "k \<notin> keys m \<Longrightarrow> Map_set k v m = m @ [(k, v)]"
  by (induction m) (auto simp: keys_def)

lemma keys_Map_delete: "keys (Map_delete k m) = keys m - {k}"
  by (auto simp: keys_def Map_delete_def)

lemma Map_delete_absent: "k \<notin> keys m \<Longrightarrow> Map_delete k m = m"
  by (induction m) (auto simp: keys_def Map_delete_def)

lemma ensureRaf_fields [simp]:
  "pending (ensureRaf s) = pending s" "nextId (ensureRaf s) = nextId s"
  "trace (ensureRaf s) = trace s"
  by (simp_all add: ensureRaf_def requestAnimationFrame_def)

lemma schedule_fields:
  "fst (schedule cb ts s) = nextId s"
  "nextId (snd (schedule cb ts s)) = Suc (nextId s)"
  "pending (snd (schedule cb ts s)) = Map_set (nextId s) \<lparr> callback = cb, scheduledAt = ts \<rparr> (pending s)"
  "trace (snd (schedule cb ts s)) = trace s"
  by (simp_all add: schedule_def Let_def)

lemma cancel_fields [simp]:
  "nextId (cancel h s) = nextId s" "pending (cancel h s) = Map_delete h (pending s)"
  "trace (cancel h s) = trace s" "rafId (cancel h s) = rafId s"
  "animationFrames (cancel h s) = animationFrames s" "nextHandle (cancel h s) = nextHandle s"
  by (simp_all add: cancel_def)

lemma fresh_not_key: "fresh_ids s \<Longrightarrow> nextId s \<notin> keys (pending s)"
  by (auto simp: fresh_ids_def)

lemma pending_schedule:
  "fresh_ids s \<Longrightarrow>
   pending (snd (schedule cb ts s)) =
     pending s @ [(nextId s, \<lparr> callback = cb, scheduledAt = ts \<rparr>)]"
  by (simp add: schedule_fields Map_set_fresh fresh_not_key)

lemma fresh_schedule: "fresh_ids s \<Longrightarrow> fresh_ids (snd (schedule cb ts s))"
  by (auto simp: fresh_ids_def pending_schedule schedule_fields(2) keys_def less_Suc_eq)

lemma fresh_cancel: "fresh_ids s \<Longrightarrow> fresh_ids (cancel h s)"
  by (auto simp: fresh_ids_def keys_Map_delete)

lemma pending_apply_calls:
  "fresh_ids s \<Longrightarrow>
   pending (apply_calls cs s) =
     filter (\<lambda>e. Cancel (fst e) \<notin> set cs) (pending s) @ survivors (nextId s) cs"
proof (induction cs arbitrary: s)
  case Nil
  then show ?case by simp
next
  case (Cons c cs)
  show ?case
  proof (cases c)
    case (Schedule cb ts)
    show ?thesis
      using Cons.IH[OF fresh_schedule[OF Cons.prems], of cb ts]
      by (simp add: Schedule pending_schedule[OF Cons.prems] schedule_fields(2))
  next
    case (Cancel h)
    show ?thesis
      using Cons.IH[OF fresh_cancel[OF Cons.prems], of h]
      by (auto simp add: Cancel Map_delete_def intro!: filter_cong)
  qed
qed

lemma trace_apply_calls [simp]: "trace (apply_calls cs s) = trace s"
  by (induction cs s rule: apply_calls.induct) (simp_all add: schedule_fields)

lemma body_induct [case_names Done DoSchedule DoCancel]:
  assumes "P Done"
    and "\<And>cb ts k. (\<And>h. P (k h)) \<Longrightarrow> P (DoSchedule cb ts k)"
    and "\<And>h p. P p \<Longrightarrow> P (DoCancel h p)"
  shows "P p"
  by (rule body.induct[where ?P1.0 = "\<lambda>_. True" and ?P2.0 = P]) (auto intro: assms)

lemma evolves_refl: "evolves s s"
  by (simp add: evolves_def split: option.splits)

lemma evolves_trans:
  assumes a: "evolves s s'" and b: "evolves s' s''"
  shows "evolves s s''"
proof -
  have n: "nextId s \<le> nextId s'" "nextId s' \<le> nextId s''"
    using a b by (simp_all add: evolves_def)
  have k: "keys (pending s'') \<subseteq> keys (pending s) \<union> {nextId s ..< nextId s''}"
  proof
    fix x assume "x \<in> keys (pending s'')"
    then have "x \<in> keys (pending s') \<or> (nextId s' \<le> x \<and> x < nextId s'')"
      using b by (auto simp: evolves_def)
    moreover have "x \<in> keys (pending s') \<Longrightarrow> x \<in> keys (pending s) \<or> (nextId s \<le> x \<and> x < nextId s')"
      using a by (auto simp: evolves_def)
    ultimately show "x \<in> keys (pending s) \<union> {nextId s ..< nextId s''}"
      using n by auto
  qed
  show ?thesis
  proof (cases "rafId s")
    case (Some h)
    then show ?thesis using a b n k by (simp add: evolves_def)
  next
    case None
    show ?thesis
    proof (cases "nextId s < nextId s'")
      case True
      then show ?thesis using a b n k None by (auto simp add: evolves_def)
    next
      case False
      then have "nextId s = nextId s'" using n by simp
      then show ?thesis using a b n k None False
        by (auto simp add: evolves_def split: if_splits)
    qed
  qed
qed

lemma keys_Map_set: "keys (Map_set k v m) = insert k (keys m)"
  by (induction m) (force simp: keys_def)+

lemma evolves_schedule: "evolves s (snd (schedule cb ts s))"
  by (auto simp: evolves_def schedule_def Let_def keys_Map_set ensureRaf_def
      requestAnimationFrame_def split: option.splits)

lemma evolves_cancel: "evolves s (cancel h s)"
  by (auto simp: evolves_def keys_Map_delete split: option.splits)

lemma evolves_trace: "evolves s (s\<lparr> trace := t \<rparr>)"
  by (simp add: evolves_def split: option.splits)

lemma evolves_run: "evolves s (run p s)"
proof (induction p arbitrary: s rule: body_induct)
  case Done
  then show ?case by (simp add: evolves_refl)
next
  case (DoSchedule cb ts k)
  have "evolves (snd (schedule cb ts s)) (run (k (fst (schedule cb ts s))) (snd (schedule cb ts s)))"
    by (rule DoSchedule)
  then show ?case
    using evolves_trans[OF evolves_schedule] by (simp add: split_beta)
next
  case (DoCancel h p)
  show ?case
    using evolves_trans[OF evolves_cancel DoCancel] by simp
qed

lemma trace_run [simp]: "trace (run p s) = trace s"
proof (induction p arbitrary: s rule: body_induct)
  case (DoSchedule cb ts k)
  have "trace (run (k (fst (schedule cb ts s))) (snd (schedule cb ts s))) = trace (snd (schedule cb ts s))"
    by (rule DoSchedule)
  then show ?case by (simp add: split_beta schedule_fields)
qed simp_all

lemma evolves_invoke: "evolves s (invoke e now s)"
  unfolding invoke_def
  by (cases "callback e") (simp add: evolves_trans[OF evolves_trace evolves_run])

lemma trace_invoke: "trace (invoke e now s) = trace s @ [Invoked (callback e) now (scheduledAt e)]"
  unfolding invoke_def by (cases "callback e") simp

lemma evolves_fold: "evolves s (fold (\<lambda>e. invoke e now) es s)"
proof (induction es arbitrary: s)
  case Nil
  show ?case by (simp add: evolves_refl)
next
  case (Cons e es)
  show ?case using evolves_trans[OF evolves_invoke Cons.IH] by simp
qed

lemma trace_fold:
  "trace (fold (\<lambda>e. invoke e now) es s) =
     trace s @ map (\<lambda>e. Invoked (callback e) now (scheduledAt e)) es"
  by (induction es arbitrary: s) (simp_all add: trace_invoke)

lemma evolves_fresh: "evolves s s' \<Longrightarrow> fresh_ids s \<Longrightarrow> fresh_ids s'"
  by (fastforce simp: evolves_def fresh_ids_def)

lemma evolves_apply_calls: "evolves s (apply_calls cs s)"
proof (induction cs s rule: apply_calls.induct)
  case (1 s)
  show ?case by (simp add: evolves_refl)
next
  case (2 cb ts cs s)
  then show ?case using evolves_trans[OF evolves_schedule] by simp
next
  case (3 h cs s)
  then show ?case using evolves_trans[OF evolves_cancel] by simp
qed

lemma flush_trace:
  "trace (flush now s) =
     trace s @ Flush now # map (\<lambda>e. Invoked (callback e) now (scheduledAt e)) (Map_values (pending s))"
  by (simp add: flush_def Let_def trace_fold Map_values_def)

lemma flush_evolves:
  assumes "pending s \<noteq> []"
  shows "\<exists>s3. evolves (s\<lparr> rafId := None, trace := trace s @ [Flush now], pending := [] \<rparr>) s3
           \<and> flush now s = (if pending s3 \<noteq> [] then ensureRaf s3 else s3)"
proof -
  let ?s2 = "s\<lparr> rafId := None, trace := trace s @ [Flush now], pending := [] \<rparr>"
  let ?s3 = "fold (\<lambda>entry. invoke entry now) (Map_values (pending s)) ?s2"
  have "evolves ?s2 ?s3" by (rule evolves_fold)
  moreover have "flush now s = (if pending ?s3 \<noteq> [] then ensureRaf ?s3 else ?s3)"
    using assms by (simp add: flush_def Let_def)
  ultimately show ?thesis by blast
qed

lemma ensureRaf_armed: "rafId s \<noteq> None \<Longrightarrow> ensureRaf s = s"
  by (simp add: ensureRaf_def)

lemma flush_result:
  assumes f: "fresh_ids s" and a: "animationFrames s = []"
  shows "keys (pending (flush now s)) \<subseteq> {nextId s ..< nextId (flush now s)}
         \<and> nextId s \<le> nextId (flush now s)
         \<and> (if nextId s < nextId (flush now s)
              then \<exists>h. rafId (flush now s) = Some h \<and> animationFrames (flush now s) = [h]
              else rafId (flush now s) = None \<and> animationFrames (flush now s) = [])"
proof (cases "pending s = []")
  case True
  then show ?thesis using a by (simp add: flush_def Let_def keys_def)
next
  case False
  from flush_evolves[OF False, of now] obtain s3 where
    e: "evolves (s\<lparr> rafId := None, trace := trace s @ [Flush now], pending := [] \<rparr>) s3"
    and r: "flush now s = (if pending s3 \<noteq> [] then ensureRaf s3 else s3)" by blast
  have k: "keys (pending s3) \<subseteq> {nextId s ..< nextId s3}" "nextId s \<le> nextId s3"
    using e by (auto simp: evolves_def keys_def)
  have arm: "if nextId s < nextId s3
        then \<exists>h. rafId s3 = Some h \<and> animationFrames s3 = [h]
        else rafId s3 = None \<and> animationFrames s3 = []"
    using e a by (auto simp: evolves_def split: if_splits)
  have ne: "pending s3 \<noteq> [] \<Longrightarrow> nextId s < nextId s3"
  proof -
    assume "pending s3 \<noteq> []"
    then obtain x where "x \<in> keys (pending s3)" by (cases "pending s3") (auto simp: keys_def)
    then show ?thesis using k by auto
  qed
  have same: "flush now s = s3"
  proof (cases "pending s3 = []")
    case True then show ?thesis using r by simp
  next
    case False
    then have "rafId s3 \<noteq> None" using ne arm by auto
    then show ?thesis using r False by (simp add: ensureRaf_armed)
  qed
  show ?thesis unfolding same using k arm by simp
qed

lemma keys_empty: "keys m = {} \<longleftrightarrow> m = []"
  by (cases m) (auto simp: keys_def)

lemma evolves_inv: "evolves s s' \<Longrightarrow> sched_inv s \<Longrightarrow> sched_inv s'"
proof -
  assume e: "evolves s s'" and i: "sched_inv s"
  have f: "fresh_ids s'" using evolves_fresh[OF e] i by (simp add: sched_inv_def)
  show ?thesis
  proof (cases "rafId s")
    case (Some h)
    then show ?thesis using e i f by (simp add: evolves_def sched_inv_def)
  next
    case None
    show ?thesis
    proof (cases "nextId s < nextId s'")
      case True
      then show ?thesis using e i f None by (auto simp add: evolves_def sched_inv_def)
    next
      case False
      then have "keys (pending s') = {}" using e i None by (auto simp: evolves_def sched_inv_def keys_def)
      then have "pending s' = []" by (simp add: keys_empty)
      then show ?thesis using e i f None False by (simp add: evolves_def sched_inv_def)
    qed
  qed
qed

lemma nextId_apply_calls:
  "(\<exists>cb ts. Schedule cb ts \<in> set cs) \<Longrightarrow> nextId s < nextId (apply_calls cs s)"
proof (induction cs s rule: apply_calls.induct)
  case (1 s)
  then show ?case by simp
next
  case (2 cb ts cs s)
  have "nextId (snd (schedule cb ts s)) \<le> nextId (apply_calls cs (snd (schedule cb ts s)))"
    using evolves_apply_calls by (simp add: evolves_def)
  then show ?case by (simp add: schedule_fields)
next
  case (3 h cs s)
  then show ?case by auto
qed

lemma armed_apply_calls:
  assumes "sched_inv s" "\<exists>cb ts. Schedule cb ts \<in> set cs"
  shows "\<exists>h. rafId (apply_calls cs s) = Some h \<and> animationFrames (apply_calls cs s) = [h]"
proof -
  have e: "evolves s (apply_calls cs s)" by (rule evolves_apply_calls)
  have n: "nextId s < nextId (apply_calls cs s)" by (rule nextId_apply_calls[OF assms(2)])
  show ?thesis using e n assms(1)
    by (cases "rafId s") (auto simp: evolves_def sched_inv_def)
qed

lemma record_pending_id [simp]: "s\<lparr> pending := pending s \<rparr> = s"
  by simp

lemma cancel_unknown: "h \<notin> keys (pending s) \<Longrightarrow> cancel h s = s"
  by (simp add: cancel_def Map_delete_absent)

lemma animationFrame_armed:
  "animationFrames s = [h] \<Longrightarrow> animationFrame now s = flush now (s\<lparr> animationFrames := [] \<rparr>)"
  by (simp add: animationFrame_def)

lemma animationFrame_idle:
  "animationFrames s = [] \<Longrightarrow> animationFrame now s = s"
  by (simp add: animationFrame_def)

lemma frame_result:
  assumes i: "sched_inv s" and r: "rafId s = Some h0"
  shows "trace (animationFrame now s) = trace s @ Flush now # invoked now (pending s)"
    and "keys (pending (animationFrame now s)) \<subseteq> {nextId s ..< nextId (animationFrame now s)}"
    and "nextId s \<le> nextId (animationFrame now s)"
    and "if nextId s < nextId (animationFrame now s)
         then \<exists>h. rafId (animationFrame now s) = Some h \<and> animationFrames (animationFrame now s) = [h]
         else rafId (animationFrame now s) = None \<and> animationFrames (animationFrame now s) = []"
proof -
  have a: "animationFrames s = [h0]" using i r by (simp add: sched_inv_def)
  have f: "fresh_ids (s\<lparr> animationFrames := [] \<rparr>)" using i by (simp add: sched_inv_def fresh_ids_def)
  note af = animationFrame_armed[OF a]
  show "trace (animationFrame now s) = trace s @ Flush now # invoked now (pending s)"
    by (simp add: af flush_trace invoked_def)
  from flush_result[OF f, of now]
  show "keys (pending (animationFrame now s)) \<subseteq> {nextId s ..< nextId (animationFrame now s)}"
    and "nextId s \<le> nextId (animationFrame now s)"
    and "if nextId s < nextId (animationFrame now s)
         then \<exists>h. rafId (animationFrame now s) = Some h \<and> animationFrames (animationFrame now s) = [h]
         else rafId (animationFrame now s) = None \<and> animationFrames (animationFrame now s) = []"
    by (simp_all add: af)
qed

lemma frame_inv: "sched_inv s \<Longrightarrow> sched_inv (animationFrame now s)"
proof (cases "rafId s")
  case None
  assume "sched_inv s"
  then show ?thesis using None by (simp add: sched_inv_def animationFrame_idle)
next
  case (Some h0)
  assume i: "sched_inv s"
  note fr = frame_result[OF i Some, of now]
  have f: "fresh_ids (animationFrame now s)"
    using fr(2) by (auto simp: fresh_ids_def)
  show ?thesis
  proof (cases "nextId s < nextId (animationFrame now s)")
    case True
    then show ?thesis using fr(4) f by (auto simp: sched_inv_def)
  next
    case False
    then have "keys (pending (animationFrame now s)) = {}" using fr(2) by auto
    then have "pending (animationFrame now s) = []" by (simp add: keys_empty)
    then show ?thesis using fr(4) f False by (simp add: sched_inv_def)
  qed
qed

lemma cancel_fired:
  assumes i: "sched_inv s" and h: "h < nextId s"
  shows "cancel h (animationFrame now s) = animationFrame now s"
proof (cases "rafId s")
  case None
  then have "pending s = []" "animationFrames s = []" using i by (simp_all add: sched_inv_def)
  then show ?thesis by (simp add: animationFrame_idle cancel_unknown keys_def)
next
  case (Some h0)
  have "h \<notin> keys (pending (animationFrame now s))"
    using frame_result(2)[OF i Some, of now] h by auto
  then show ?thesis by (rule cancel_unknown)
qed

lemma new_inv: "sched_inv new_RenderScheduler"
  by (simp add: sched_inv_def new_RenderScheduler_def fresh_ids_def keys_def)

text \<open>
  C2. From a state between two events with nothing pending, any sequence of calls with
  at least one \<^verbatim>\<open>schedule\<close> leaves exactly one request armed. What is pending then is
  what was scheduled and not cancelled by a later call, in the order of registration,
  and the boundary runs \<^verbatim>\<open>flush\<close> once, which invokes exactly these callbacks in that
  order. \<^verbatim>\<open>cancel\<close> of a handle that is not pending changes nothing, and after the boundary
  that holds for every handle given out before it.
\<close>

theorem scheduler_coalesces:
  assumes "sched_inv s" and "pending s = []" and "\<exists>cb ts. Schedule cb ts \<in> set cs"
  shows "(\<exists>h. animationFrames (apply_calls cs s) = [h])
         \<and> pending (apply_calls cs s) = survivors (nextId s) cs
         \<and> trace (animationFrame now (apply_calls cs s)) =
             trace s @ Flush now # invoked now (survivors (nextId s) cs)
         \<and> (\<forall>h. h \<notin> keys (pending (apply_calls cs s)) \<longrightarrow>
                cancel h (apply_calls cs s) = apply_calls cs s)
         \<and> (\<forall>h. h < nextId (apply_calls cs s) \<longrightarrow>
                cancel h (animationFrame now (apply_calls cs s)) =
                  animationFrame now (apply_calls cs s))"
proof -
  let ?s' = "apply_calls cs s"
  have f: "fresh_ids s" using assms(1) by (simp add: sched_inv_def)
  have i': "sched_inv ?s'" by (rule evolves_inv[OF evolves_apply_calls assms(1)])
  obtain h where h: "rafId ?s' = Some h" "animationFrames ?s' = [h]"
    using armed_apply_calls[OF assms(1) assms(3)] by blast
  have p: "pending ?s' = survivors (nextId s) cs"
    using pending_apply_calls[OF f, of cs] assms(2) by simp
  have t: "trace (animationFrame now ?s') = trace s @ Flush now # invoked now (survivors (nextId s) cs)"
    using frame_result(1)[OF i' h(1), of now] by (simp add: p)
  show ?thesis
    using h(2) p t cancel_unknown cancel_fired[OF i'] by blast
qed

lemma run_calls: "run p s = apply_calls (calls_of p (nextId s)) s"
proof (induction p arbitrary: s rule: body_induct)
  case Done
  show ?case by simp
next
  case (DoSchedule cb ts k)
  show ?case
    using DoSchedule[of "nextId s" "snd (schedule cb ts s)"]
    by (simp add: split_beta schedule_fields)
next
  case (DoCancel h p)
  show ?case using DoCancel[of "cancel h s"] by simp
qed

lemma apply_calls_append: "apply_calls (xs @ ys) s = apply_calls ys (apply_calls xs s)"
  by (induction xs s rule: apply_calls.induct) simp_all

lemma nextId_count: "nextId (apply_calls cs s) = nextId s + length (filter is_Schedule cs)"
  by (induction cs s rule: apply_calls.induct) (simp_all add: schedule_fields is_Schedule_def)

lemma schedule_trace_commute:
  "snd (schedule cb ts (s\<lparr> trace := t \<rparr>)) = (snd (schedule cb ts s))\<lparr> trace := t \<rparr>"
  by (simp add: schedule_def Let_def ensureRaf_def requestAnimationFrame_def)

lemma cancel_trace_commute: "cancel h (s\<lparr> trace := t \<rparr>) = (cancel h s)\<lparr> trace := t \<rparr>"
  by (simp add: cancel_def)

lemma apply_calls_trace_commute:
  "apply_calls cs (s\<lparr> trace := t \<rparr>) = (apply_calls cs s)\<lparr> trace := t \<rparr>"
  by (induction cs s rule: apply_calls.induct)
     (simp_all add: schedule_trace_commute cancel_trace_commute)

lemma invoke_calls:
  "invoke e now s =
     (apply_calls (calls_of (body_of e now) (nextId s)) s)
       \<lparr> trace := trace s @ [Invoked (callback e) now (scheduledAt e)] \<rparr>"
  unfolding invoke_def body_of_def
  by (cases "callback e") (simp add: run_calls apply_calls_trace_commute)

lemma fold_invoke_calls:
  "\<exists>t. fold (\<lambda>e. invoke e now) es s = (apply_calls (calls_during now es (nextId s)) s)\<lparr> trace := t \<rparr>"
proof (induction es arbitrary: s)
  case Nil
  have "s = s\<lparr> trace := trace s \<rparr>" by simp
  then show ?case by (auto intro: exI[of _ "trace s"])
next
  case (Cons e es)
  let ?c = "calls_of (body_of e now) (nextId s)"
  let ?s1 = "invoke e now s"
  have n: "nextId ?s1 = nextId s + length (filter is_Schedule ?c)"
    by (simp add: invoke_calls nextId_count)
  from Cons[of ?s1] obtain t where
    t: "fold (\<lambda>e. invoke e now) es ?s1 = (apply_calls (calls_during now es (nextId ?s1)) ?s1)\<lparr> trace := t \<rparr>"
    by blast
  show ?case
    by (rule exI[of _ t])
       (simp add: t n apply_calls_append, simp add: invoke_calls apply_calls_trace_commute)
qed

lemma Schedule_in_iff: "(\<exists>cb ts. Schedule cb ts \<in> set cs) \<longleftrightarrow> filter is_Schedule cs \<noteq> []"
  by (induction cs) (auto simp: is_Schedule_def split: call.splits)

lemma flush_calls:
  assumes f: "fresh_ids s" and a: "animationFrames s = []"
  shows "pending (flush now s) = survivors (nextId s) (calls_during now (Map_values (pending s)) (nextId s))"
    and "nextId (flush now s) = nextId s
           + length (filter is_Schedule (calls_during now (Map_values (pending s)) (nextId s)))"
proof -
  let ?cs = "calls_during now (Map_values (pending s)) (nextId s)"
  let ?s2 = "s\<lparr> rafId := None, trace := trace s @ [Flush now], pending := [] \<rparr>"
  let ?s3 = "fold (\<lambda>entry. invoke entry now) (Map_values (pending s)) ?s2"
  have f2: "fresh_ids ?s2" by (simp add: fresh_ids_def keys_def)
  obtain t where t: "?s3 = (apply_calls ?cs ?s2)\<lparr> trace := t \<rparr>"
    using fold_invoke_calls[of now "Map_values (pending s)" ?s2] by auto
  have p3: "pending ?s3 = survivors (nextId s) ?cs"
    using pending_apply_calls[OF f2, of ?cs] by (simp add: t)
  have n3: "nextId ?s3 = nextId s + length (filter is_Schedule ?cs)"
    by (simp add: t nextId_count)
  have pe: "pending s = [] \<Longrightarrow> ?cs = []" by (simp add: Map_values_def)
  have fl: "pending (flush now s) = pending ?s3 \<and> nextId (flush now s) = nextId ?s3"
    by (cases "pending s = []") (simp_all add: flush_def Let_def Map_values_def)
  show "pending (flush now s) = survivors (nextId s) ?cs" using fl p3 by simp
  show "nextId (flush now s) = nextId s + length (filter is_Schedule ?cs)" using fl n3 by simp
qed

text \<open>
  C5, as the code has it. At a boundary with a request armed, \<^verbatim>\<open>flush\<close> runs once and
  invokes exactly the entries that were pending when it began, whatever their callbacks
  schedule or cancel meanwhile. What is pending afterwards is what the callbacks
  scheduled during the flush and did not cancel again, each under a handle given out
  during the flush. A request is armed afterwards exactly when some callback called
  \<^verbatim>\<open>schedule\<close> during the flush: always when the new set is not empty, and also when it
  is empty because every new entry was cancelled again. The next boundary then invokes
  exactly the new set.
\<close>

theorem flush_defers_new_work:
  assumes "sched_inv s" and "rafId s = Some h0"
  shows "trace (animationFrame now s) = trace s @ Flush now # invoked now (pending s)
    \<and> pending (animationFrame now s) =
        survivors (nextId s) (calls_during now (Map_values (pending s)) (nextId s))
    \<and> keys (pending (animationFrame now s)) \<subseteq> {nextId s ..< nextId (animationFrame now s)}
    \<and> ((\<exists>h. rafId (animationFrame now s) = Some h \<and> animationFrames (animationFrame now s) = [h])
          \<longleftrightarrow> (\<exists>cb ts. Schedule cb ts \<in> set (calls_during now (Map_values (pending s)) (nextId s))))
    \<and> (rafId (animationFrame now s) = None \<and> animationFrames (animationFrame now s) = []
          \<longleftrightarrow> \<not> (\<exists>cb ts. Schedule cb ts \<in> set (calls_during now (Map_values (pending s)) (nextId s))))
    \<and> (pending (animationFrame now s) \<noteq> [] \<longrightarrow>
          (\<exists>h. rafId (animationFrame now s) = Some h \<and> animationFrames (animationFrame now s) = [h]))
    \<and> trace (animationFrame now' (animationFrame now s)) =
        trace (animationFrame now s)
        @ (if rafId (animationFrame now s) = None then []
           else Flush now' # invoked now' (pending (animationFrame now s)))"
proof -
  let ?s' = "animationFrame now s"
  let ?cs = "calls_during now (Map_values (pending s)) (nextId s)"
  have a: "animationFrames s = [h0]" using assms by (simp add: sched_inv_def)
  have f: "fresh_ids (s\<lparr> animationFrames := [] \<rparr>)"
    using assms(1) by (simp add: sched_inv_def fresh_ids_def)
  note af = animationFrame_armed[OF a]
  note fr = frame_result[OF assms, of now]
  have p: "pending ?s' = survivors (nextId s) ?cs"
    using flush_calls(1)[OF f, of now] by (simp add: af)
  have n: "nextId ?s' = nextId s + length (filter is_Schedule ?cs)"
    using flush_calls(2)[OF f, of now] by (simp add: af)
  have g: "nextId s < nextId ?s' \<longleftrightarrow> (\<exists>cb ts. Schedule cb ts \<in> set ?cs)"
    by (simp add: n Schedule_in_iff)
  have armed: "(\<exists>h. rafId ?s' = Some h \<and> animationFrames ?s' = [h]) \<longleftrightarrow> (\<exists>cb ts. Schedule cb ts \<in> set ?cs)"
    using fr(4) g by (auto split: if_splits)
  have idle: "(rafId ?s' = None \<and> animationFrames ?s' = []) \<longleftrightarrow> \<not> (\<exists>cb ts. Schedule cb ts \<in> set ?cs)"
    using fr(4) g by (auto split: if_splits)
  have ne: "pending ?s' \<noteq> [] \<longrightarrow> (\<exists>h. rafId ?s' = Some h \<and> animationFrames ?s' = [h])"
  proof
    assume "pending ?s' \<noteq> []"
    then have "keys (pending ?s') \<noteq> {}" by (simp add: keys_empty)
    then have "nextId s < nextId ?s'" using fr(2) by auto
    then show "\<exists>h. rafId ?s' = Some h \<and> animationFrames ?s' = [h]" using fr(4) by simp
  qed
  have i': "sched_inv ?s'" by (rule frame_inv[OF assms(1)])
  have nx: "trace (animationFrame now' ?s') =
        trace ?s' @ (if rafId ?s' = None then [] else Flush now' # invoked now' (pending ?s'))"
  proof (cases "rafId ?s'")
    case None
    then have "animationFrames ?s' = []" using i' by (simp add: sched_inv_def)
    then show ?thesis using None by (simp add: animationFrame_idle)
  next
    case (Some h)
    show ?thesis using frame_result(1)[OF i' Some, of now'] Some by simp
  qed
  show ?thesis using fr(1) p fr(2) armed idle ne nx by blast
qed

lemmas sched_eval = schedule_def ensureRaf_def requestAnimationFrame_def cancel_def
  Map_delete_def Map_values_def new_RenderScheduler_def animationFrame_def flush_def invoke_def
  Let_def invoked_def

text \<open>
  C5 as stated fails: after a flush whose callback schedules an entry and cancels it at
  once, a request is armed although the new pending set is empty.
\<close>

theorem flush_arms_on_empty_set_counterexample:
  "pending (animationFrame (Finite 0) (snd (schedule cbA None new_RenderScheduler))) = []
   \<and> rafId (animationFrame (Finite 0) (snd (schedule cbA None new_RenderScheduler))) = Some 2
   \<and> animationFrames (animationFrame (Finite 0) (snd (schedule cbA None new_RenderScheduler))) = [2]"
  by (simp add: sched_eval cbA_def)

theorem scheduler_coalesces_witness:
  "sched_inv new_RenderScheduler \<and> pending new_RenderScheduler = []
   \<and> animationFrames
        (apply_calls [Schedule cbB None, Schedule cbC (Some (Finite 1)), Cancel 1, Cancel 7,
                      Schedule cbB (Some (Finite 2))] new_RenderScheduler) = [1]
   \<and> trace (animationFrame (Finite 16)
        (apply_calls [Schedule cbB None, Schedule cbC (Some (Finite 1)), Cancel 1, Cancel 7,
                      Schedule cbB (Some (Finite 2))] new_RenderScheduler))
      = [Flush (Finite 16), Invoked cbC (Finite 16) (Some (Finite 1)),
         Invoked cbB (Finite 16) (Some (Finite 2))]"
proof -
  let ?cs = "[Schedule cbB None, Schedule cbC (Some (Finite 1)), Cancel 1, Cancel 7,
              Schedule cbB (Some (Finite 2))]"
  have h: "sched_inv new_RenderScheduler" "pending new_RenderScheduler = []"
    "\<exists>cb ts. Schedule cb ts \<in> set ?cs"
    by (simp_all add: sched_inv_def new_RenderScheduler_def fresh_ids_def keys_def) blast
  have a: "animationFrames (apply_calls ?cs new_RenderScheduler) = [1]"
    by (simp add: sched_eval)
  have n: "nextId new_RenderScheduler = 1" "trace new_RenderScheduler = []"
    by (simp_all add: new_RenderScheduler_def)
  from scheduler_coalesces [OF h, of "Finite 16"] h(1,2) a
  show ?thesis by (simp add: n invoked_def Map_values_def)
qed

theorem flush_defers_new_work_witness:
  "sched_inv (snd (schedule cbC None new_RenderScheduler))
   \<and> rafId (snd (schedule cbC None new_RenderScheduler)) = Some 1
   \<and> trace (animationFrame (Finite 0) (snd (schedule cbC None new_RenderScheduler)))
       = [Flush (Finite 0), Invoked cbC (Finite 0) None]
   \<and> pending (animationFrame (Finite 0) (snd (schedule cbC None new_RenderScheduler)))
       = [(2, \<lparr> callback = cbB, scheduledAt = Some (Finite 0) \<rparr>)]
   \<and> animationFrames (animationFrame (Finite 0) (snd (schedule cbC None new_RenderScheduler))) = [2]
   \<and> trace (animationFrame (Finite 16)
        (animationFrame (Finite 0) (snd (schedule cbC None new_RenderScheduler))))
       = [Flush (Finite 0), Invoked cbC (Finite 0) None,
          Flush (Finite 16), Invoked cbB (Finite 16) (Some (Finite 0))]"
proof -
  let ?s = "snd (schedule cbC None new_RenderScheduler)"
  have h: "sched_inv ?s" "rafId ?s = Some 1"
    by (simp_all add: sched_inv_def fresh_ids_def keys_def sched_eval)
  have v: "pending ?s = [(1, \<lparr> callback = cbC, scheduledAt = None \<rparr>)]" "nextId ?s = 2" "trace ?s = []"
    by (simp_all add: sched_eval)
  have c: "calls_during (Finite 0) (Map_values (pending ?s)) (nextId ?s) = [Schedule cbB (Some (Finite 0))]"
    unfolding v by (simp add: Map_values_def body_of_def cbC_def)
  have a: "animationFrames (animationFrame (Finite 0) ?s) = [2]"
    by (simp add: sched_eval cbC_def)
  from flush_defers_new_work [OF h, of "Finite 0" "Finite 16"] h a
  show ?thesis
    unfolding c by (simp add: v invoked_def Map_values_def)
qed


section \<open>Properties of the renderer\<close>

lemma flagged_mask:
  "f AND (ROW_DIRTY OR ROW_HAS_SELECTION OR ROW_HAS_HYPERLINK) \<noteq> 0 \<longleftrightarrow> flagged f"
  by (simp add: flagged_def bit.conj_disj_distrib or_eq_0_iff)

lemma buildRow_char:
  "buildRow input fa y S =
     S \<union> {z. (fa \<or> flagged (rowFlag input y))
              \<and> (z = y \<or> (y > 0 \<and> z = y - 1) \<or> (y < rows input - 1 \<and> z = y + 1))}"
  by (auto simp add: buildRow_def Let_def flagged_mask rowFlag_def)

lemma rows_fold:
  "fold (buildRow input fa) [0 ..< m] {}
   = {y. \<exists>k < m. (fa \<or> flagged (rowFlag input k))
            \<and> (y = k \<or> (k > 0 \<and> y = k - 1) \<or> (k < rows input - 1 \<and> y = k + 1))}"
proof (induction m)
  case 0
  show ?case by simp
next
  case (Suc m)
  have "fold (buildRow input fa) [0 ..< Suc m] {}
        = buildRow input fa m (fold (buildRow input fa) [0 ..< m] {})"
    by simp
  also have "\<dots> = {y. \<exists>k < m. (fa \<or> flagged (rowFlag input k))
            \<and> (y = k \<or> (k > 0 \<and> y = k - 1) \<or> (k < rows input - 1 \<and> y = k + 1))}
        \<union> {z. (fa \<or> flagged (rowFlag input m))
              \<and> (z = m \<or> (m > 0 \<and> z = m - 1) \<or> (m < rows input - 1 \<and> z = m + 1))}"
    by (simp only: Suc buildRow_char)
  also have "\<dots> = {y. \<exists>k < Suc m. (fa \<or> flagged (rowFlag input k))
            \<and> (y = k \<or> (k > 0 \<and> y = k - 1) \<or> (k < rows input - 1 \<and> y = k + 1))}"
    by (auto simp add: less_Suc_eq)
  finally show ?case .
qed

lemma rowsToRender_char:
  "rowsToRender T input =
     {y. \<exists>k < rows input. (dirtyState input = FULL T \<or> flagged (rowFlag input k))
            \<and> (y = k \<or> (k > 0 \<and> y = k - 1) \<or> (k < rows input - 1 \<and> y = k + 1))}"
  by (simp only: rowsToRender_def Let_def rows_fold)

lemma renderedRows_set:
  "set (renderedRows T input) =
     (if dirtyState input = FULL T then {0 ..< rows input}
      else {y. y < rows input
               \<and> (\<exists>k < rows input. flagged (rowFlag input k) \<and> (y = k \<or> y + 1 = k \<or> y = k + 1))})"
proof (cases "dirtyState input = FULL T")
  case True
  then show ?thesis
    by (auto simp add: renderedRows_def rowsToRender_char)
next
  case False
  then show ?thesis
    by (auto simp add: renderedRows_def rowsToRender_char) 
qed

lemma forEach_skip:
  "forEach xs (\<lambda>x s. if P x then f x s else (None, s)) = forEach (filter P xs) f"
proof
  fix s show "forEach xs (\<lambda>x s. if P x then f x s else (None, s)) s = forEach (filter P xs) f s"
    by (induction xs arbitrary: s) (auto split: prod.splits option.splits)
qed

lemma renderRows_filter:
  "renderRows T input (rowsToRender T input) =
     forEach (renderedRows T input) (\<lambda>y r. renderLine T r (viewportCells input) y (cols input))"
proof -
  have "renderRows T input (rowsToRender T input) =
      forEach [0 ..< rows input]
        (\<lambda>y r. if y \<in> rowsToRender T input then renderLine T r (viewportCells input) y (cols input)
                else (None, r))"
    unfolding renderRows_def by (rule arg_cong[where f="forEach _"]) (intro ext, simp)
  then show ?thesis by (simp add: forEach_skip renderedRows_def)
qed

lemma requireContext_attached: "attached r \<Longrightarrow> requireContext r = Inr (the_ctx r)"
  by (auto simp: attached_def requireContext_def the_ctx_def)

lemma requireCanvas_attached: "attached r \<Longrightarrow> \<exists>cv. requireCanvas r = Inr cv \<and> canvas r = Some cv"
  by (auto simp: attached_def requireCanvas_def)

lemma attached_ctx [simp]: "attached (r\<lparr> ctx := Some c \<rparr>) = (canvas r \<noteq> None)"
  by (simp add: attached_def)

lemma attached_canvas: "attached r \<Longrightarrow> canvas r \<noteq> None"
  by (simp add: attached_def)

lemma the_ctx_ctx [simp]: "the_ctx (r\<lparr> ctx := Some c \<rparr>) = c"
  by (simp add: the_ctx_def)

lemma renderCellBackground_drawn:
  assumes "attached r"
  shows "fst (renderCellBackground T r cell x y) = None"
    and "snd (renderCellBackground T r cell x y) =
           r\<lparr> ctx := Some (the_ctx (snd (renderCellBackground T r cell x y))) \<rparr>"
    and "drawn (the_ctx (snd (renderCellBackground T r cell x y))) =
           drawn (the_ctx r) @ backgroundFill T r (globalAlpha (the_ctx r)) cell x y
             @ selectionOverlay r cell x y"
    and "globalAlpha (the_ctx (snd (renderCellBackground T r cell x y))) =
           (if isInSelection r x y then Finite 1 else globalAlpha (the_ctx r))"
  unfolding renderCellBackground_def requireContext_attached[OF assms]
  by (simp_all add: Let_def backgroundFill_def backgroundComponents_def selectionOverlay_def
      fillRect_def)

lemma ends_in_andThen: "ends_in E f \<Longrightarrow> ends_in E g \<Longrightarrow> ends_in E (andThen f g)"
  unfolding ends_in_def andThen_def
  by (auto split: prod.splits option.splits)

lemma ends_in_forEach:
  assumes "None \<in> E" and "\<And>x. ends_in E (f x)"
  shows "ends_in E (forEach xs f)"
  unfolding ends_in_def
proof (intro allI impI)
  fix r assume "attached r"
  then show "attached (snd (forEach xs f r)) \<and> fst (forEach xs f r) \<in> E"
  proof (induction xs arbitrary: r)
    case Nil
    then show ?case using assms(1) by simp
  next
    case (Cons x xs)
    have a: "attached (snd (f x r)) \<and> fst (f x r) \<in> E"
      using assms(2)[of x] Cons.prems by (simp add: ends_in_def)
    show ?case
    proof (cases "fst (f x r)")
      case None
      then show ?thesis using Cons.IH[of "snd (f x r)"] a
        by (simp add: split_beta)
    next
      case (Some e)
      then show ?thesis using a by (simp add: split_beta)
    qed
  qed
qed

lemma ends_in_skip: "None \<in> E \<Longrightarrow> ends_in E (\<lambda>r. (None, r))"
  by (simp add: ends_in_def)

lemma ends_in_if: "ends_in E f \<Longrightarrow> ends_in E g \<Longrightarrow> ends_in E (\<lambda>r. if b then f r else g r)"
  by (simp add: ends_in_def)

lemma ends_in_mono: "ends_in E f \<Longrightarrow> E \<subseteq> E' \<Longrightarrow> ends_in E' f"
  by (auto simp: ends_in_def)

lemma ends_in_renderCellBackground: "ends_in {None} (\<lambda>r. renderCellBackground T r cell x y)"
  unfolding ends_in_def
proof (intro allI impI)
  fix r assume a: "attached r"
  have "attached (snd (renderCellBackground T r cell x y))"
    using renderCellBackground_drawn(2)[OF a, of T cell x y] a
    by (metis attached_ctx attached_canvas)
  then show "attached (snd (renderCellBackground T r cell x y))
             \<and> fst (renderCellBackground T r cell x y) \<in> {None}"
    using renderCellBackground_drawn(1)[OF a] by simp
qed

lemma cellChar_cases:
  "cellChar r cell x y = Inl e \<Longrightarrow> e = RangeError \<and> codepoint cell > 1114111"
  by (auto simp: cellChar_def fromCodePoint_def split: if_splits option.splits)

lemma renderCellText_outcome:
  assumes "attached r"
  shows "attached (snd (renderCellText T r cell x y))"
    and "fst (renderCellText T r cell x y) \<in> {None, Some RangeError}"
    and "codepoint cell \<le> 1114111 \<Longrightarrow> fst (renderCellText T r cell x y) = None"
proof -
  note c = attached_canvas[OF assms]
  show "attached (snd (renderCellText T r cell x y))"
    unfolding renderCellText_def requireContext_attached[OF assms]
    using assms c by (simp add: Let_def split: sum.splits)
  show "fst (renderCellText T r cell x y) \<in> {None, Some RangeError}"
    unfolding renderCellText_def requireContext_attached[OF assms]
    by (auto simp add: Let_def split: sum.splits dest: cellChar_cases)
  show "codepoint cell \<le> 1114111 \<Longrightarrow> fst (renderCellText T r cell x y) = None"
    unfolding renderCellText_def requireContext_attached[OF assms]
    by (auto simp add: Let_def split: sum.splits dest: cellChar_cases)
qed

lemma ends_in_renderCellText:
  "ends_in {None, Some RangeError} (\<lambda>r. renderCellText T r cell x y)"
  unfolding ends_in_def using renderCellText_outcome(1,2) by blast

lemma ends_in_pass1: "ends_in {None} (renderLine_pass1 T cells row n)"
  unfolding renderLine_pass1_def
proof (rule ends_in_forEach)
  fix x
  show "ends_in {None} (pass1_cell T cells row n x)"
    using ends_in_renderCellBackground[of T _ x row]
    by (auto simp: ends_in_def pass1_cell_def split: option.splits)
qed simp

lemma ends_in_pass2: "ends_in {None, Some RangeError} (renderLine_pass2 T cells row n)"
  unfolding renderLine_pass2_def
proof (rule ends_in_forEach)
  fix x
  show "ends_in {None, Some RangeError} (pass2_cell T cells row n x)"
    using ends_in_renderCellText[of T _ x row]
    by (auto simp: ends_in_def pass2_cell_def split: option.splits)
qed simp

lemma ends_in_renderLine:
  "ends_in {None, Some RangeError} (\<lambda>r. renderLine T r cells row n)"
  unfolding ends_in_def
proof (intro allI impI)
  fix r assume a: "attached r"
  let ?r1 = "r\<lparr> ctx := Some (fillRect ((the_ctx r)\<lparr> fillStyle := rgbaToCss (theme_background (theme r)) \<rparr>)
                     0 (of_nat row * height (metrics r)) (of_nat n * width (metrics r))
                     (height (metrics r))) \<rparr>"
  have a1: "attached ?r1" using attached_canvas[OF a] by simp
  have e: "ends_in {None, Some RangeError}
             (andThen (renderLine_pass1 T cells row n) (renderLine_pass2 T cells row n))"
    by (rule ends_in_andThen[OF ends_in_mono[OF ends_in_pass1] ends_in_pass2]) simp
  have "renderLine T r cells row n =
          andThen (renderLine_pass1 T cells row n) (renderLine_pass2 T cells row n) ?r1"
    unfolding renderLine_def requireContext_attached[OF a] by (simp add: Let_def)
  then show "attached (snd (renderLine T r cells row n))
             \<and> fst (renderLine T r cells row n) \<in> {None, Some RangeError}"
    using e a1 by (simp add: ends_in_def)
qed

lemma ends_in_renderRows: "ends_in {None, Some RangeError} (renderRows T input S)"
  unfolding renderRows_def
proof (rule ends_in_forEach)
  fix y
  show "ends_in {None, Some RangeError}
          (\<lambda>r. if y \<notin> S then (None, r) else renderLine T r (viewportCells input) y (cols input))"
    by (rule ends_in_if[OF ends_in_skip ends_in_renderLine]) simp
qed simp

lemma ends_in_renderCursor: "ends_in {None} (\<lambda>r. renderCursor r x y style)"
  unfolding ends_in_def
proof (intro allI impI)
  fix r assume a: "attached r"
  show "attached (snd (renderCursor r x y style)) \<and> fst (renderCursor r x y style) \<in> {None}"
    unfolding renderCursor_def requireContext_attached[OF a]
    using attached_canvas[OF a] by (simp add: Let_def)
qed

lemma ends_in_renderScrollbar: "ends_in {None} (\<lambda>r. renderScrollbar r vy sl vr op)"
  unfolding ends_in_def
proof (intro allI impI)
  fix r assume a: "attached r"
  obtain cv where cv: "requireCanvas r = Inr cv" "canvas r = Some cv"
    using requireCanvas_attached[OF a] by blast
  show "attached (snd (renderScrollbar r vy sl vr op)) \<and> fst (renderScrollbar r vy sl vr op) \<in> {None}"
    unfolding renderScrollbar_def requireContext_attached[OF a] cv(1)
    using cv(2) by (simp add: Let_def)
qed

lemma render_attached:
  assumes a: "attached r"
  shows "attached (snd (render T r input))"
    and "fst (render T r input) \<in> {None, Some RangeError}"
proof -
  let ?r1 = "r\<lparr> theme := input_theme input,
                 currentSelectionRange := selectionRange input,
                 currentHoveredLink := hoveredLink input,
                 currentGetGraphemeString := Some (getGraphemeString input) \<rparr>"
  let ?cursor = "\<lambda>r'. if cursorVisible input
                         then renderCursor r' (cursorX input) (cursorY input) (cursorStyle input)
                         else (None, r')"
  let ?bar = "\<lambda>r'. if scrollbarOpacity input > 0 \<and> scrollbackLength input > 0
                         then renderScrollbar r' (viewportY input) (scrollbackLength input)
                                (rows input) (scrollbarOpacity input)
                         else (None, r')"
  have a1: "attached ?r1" using a by (simp add: attached_def)
  have c: "ends_in {None, Some RangeError} ?cursor"
    by (rule ends_in_mono[OF ends_in_if[OF ends_in_renderCursor ends_in_skip]]) simp_all
  have b: "ends_in {None, Some RangeError} ?bar"
    by (rule ends_in_mono[OF ends_in_if[OF ends_in_renderScrollbar ends_in_skip]]) simp_all
  have e: "ends_in {None, Some RangeError}
             (andThen (renderRows T input (rowsToRender T input)) (andThen ?cursor ?bar))"
    by (intro ends_in_andThen ends_in_renderRows c b)
  have "render T r input =
          andThen (renderRows T input (rowsToRender T input)) (andThen ?cursor ?bar) ?r1"
    unfolding render_def requireContext_attached[OF a] by (simp add: Let_def)
  then show "attached (snd (render T r input))"
    and "fst (render T r input) \<in> {None, Some RangeError}"
    using e a1 by (simp_all add: ends_in_def)
qed

lemma unattached_calls:
  assumes "canvas r = None" "ctx r = None"
  shows "resize r c n = (Some NotAttached, r)"
    and "render T r input = (Some NotAttached, r)"
    and "clear r = (Some NotAttached, r)"
    and "getCanvas r = Inl NotAttached"
  using assms
  by (simp_all add: resize_def render_def clear_def getCanvas_def requireCanvas_def
      requireContext_def)

lemma attach_ok:
  assumes "attach r cv = (None, r')"
  shows "attached r'" and "canvas r' = Some cv" and "ctx r' = context2d cv"
  using assms by (auto simp: attach_def attached_def Let_def split: option.splits)

lemma resize_attached: "attached r \<Longrightarrow> fst (resize r c n) = None"
proof -
  assume a: "attached r"
  obtain cv where cv: "requireCanvas r = Inr cv"
    using requireCanvas_attached[OF a] by blast
  show ?thesis
    unfolding resize_def requireContext_attached[OF a] cv by (simp add: Let_def)
qed

lemma clear_attached: "attached r \<Longrightarrow> fst (clear r) = None"
proof -
  assume a: "attached r"
  obtain cv where cv: "requireCanvas r = Inr cv"
    using requireCanvas_attached[OF a] by blast
  show ?thesis
    unfolding clear_def requireContext_attached[OF a] cv by (simp add: Let_def)
qed

text \<open>
  C7. On a renderer that has no canvas and no context, \<^verbatim>\<open>resize\<close>, \<^verbatim>\<open>render\<close>, \<^verbatim>\<open>clear\<close>
  and \<^verbatim>\<open>getCanvas\<close> raise the error "not attached" and leave the renderer as it was, so
  nothing is painted. After an \<^verbatim>\<open>attach\<close> that returned normally none of them raises that
  error: \<^verbatim>\<open>resize\<close> and \<^verbatim>\<open>clear\<close> return normally, \<^verbatim>\<open>getCanvas\<close> returns the canvas, and
  \<^verbatim>\<open>render\<close> raises at most the range error of an invalid code point.
\<close>

theorem draw_calls_require_attach:
  "(canvas r = None \<and> ctx r = None \<longrightarrow>
      resize r c n = (Some NotAttached, r)
      \<and> render T r input = (Some NotAttached, r)
      \<and> clear r = (Some NotAttached, r)
      \<and> getCanvas r = Inl NotAttached)
   \<and> (attach r cv = (None, r') \<longrightarrow>
      fst (resize r' c n) = None
      \<and> fst (render T r' input) \<noteq> Some NotAttached
      \<and> fst (clear r') = None
      \<and> getCanvas r' = Inr cv)"
proof (intro conjI impI)
  assume u: "canvas r = None \<and> ctx r = None"
  show "resize r c n = (Some NotAttached, r)" using u by (simp add: unattached_calls)
  show "render T r input = (Some NotAttached, r)" using u by (simp add: unattached_calls)
  show "clear r = (Some NotAttached, r)" using u by (simp add: unattached_calls)
  show "getCanvas r = Inl NotAttached" using u by (simp add: unattached_calls)
next
  assume at: "attach r cv = (None, r')"
  note a = attach_ok[OF at]
  show "fst (resize r' c n) = None" by (rule resize_attached[OF a(1)])
  show "fst (render T r' input) \<noteq> Some NotAttached"
    using render_attached(2)[OF a(1), of T input] by auto
  show "fst (clear r') = None" by (rule clear_attached[OF a(1)])
  show "getCanvas r' = Inr cv" using a(2) by (simp add: getCanvas_def requireCanvas_def)
qed

lemma isInSelection_ctx [simp]: "isInSelection (r\<lparr> ctx := c \<rparr>) = isInSelection r"
  by (intro ext) (simp add: isInSelection_def)

lemma backgroundFill_ctx [simp]: "backgroundFill T (r\<lparr> ctx := c \<rparr>) = backgroundFill T r"
  by (intro ext) (simp add: backgroundFill_def split: prod.splits)

lemma selectionOverlay_ctx [simp]: "selectionOverlay (r\<lparr> ctx := c \<rparr>) = selectionOverlay r"
  by (intro ext) (simp add: selectionOverlay_def)

lemma cellBackground_ctx [simp]: "cellBackground T (r\<lparr> ctx := c \<rparr>) = cellBackground T r"
  by (intro ext) (simp add: cellBackground_def)

lemma nonSpacer_cell:
  "nonSpacer cells row n x \<Longrightarrow>
   nth_cell cells (row * n + x) = Some (cells ! (row * n + x))
   \<and> cell_width (cells ! (row * n + x)) \<noteq> 0"
  by (auto simp: nonSpacer_def nth_cell_def split: if_splits)

lemma pass1_step:
  assumes a: "attached r" and g: "globalAlpha (the_ctx r) = Finite 1"
  shows "fst (pass1_cell T cells row n x r) = None"
    and "snd (pass1_cell T cells row n x r) = r\<lparr> ctx := Some (the_ctx (snd (pass1_cell T cells row n x r))) \<rparr>"
    and "drawn (the_ctx (snd (pass1_cell T cells row n x r))) =
           drawn (the_ctx r) @ (if nonSpacer cells row n x then cellBackground T r cells row n x else [])"
    and "globalAlpha (the_ctx (snd (pass1_cell T cells row n x r))) = Finite 1"
proof -
  have c: "ctx r = Some (the_ctx r)" using a by (auto simp: attached_def the_ctx_def)
  have id: "r = r\<lparr> ctx := Some (the_ctx r) \<rparr>" using c by simp
  show "fst (pass1_cell T cells row n x r) = None"
    unfolding pass1_cell_def using renderCellBackground_drawn(1)[OF a, of T]
    by (simp split: option.splits)
  show "snd (pass1_cell T cells row n x r) = r\<lparr> ctx := Some (the_ctx (snd (pass1_cell T cells row n x r))) \<rparr>"
  proof (cases "nonSpacer cells row n x")
    case True
    then show ?thesis
      unfolding pass1_cell_def using renderCellBackground_drawn(2)[OF a, of T _ x row] nonSpacer_cell[OF True]
      by simp
  next
    case False
    then have "pass1_cell T cells row n x r = (None, r)"
      unfolding pass1_cell_def by (auto simp: nonSpacer_def split: option.splits)
    then show ?thesis using id by simp
  qed
  show "drawn (the_ctx (snd (pass1_cell T cells row n x r))) =
           drawn (the_ctx r) @ (if nonSpacer cells row n x then cellBackground T r cells row n x else [])"
  proof (cases "nonSpacer cells row n x")
    case True
    then show ?thesis
      unfolding pass1_cell_def using renderCellBackground_drawn(3)[OF a, of T _ x row] nonSpacer_cell[OF True] g
      by (simp add: cellBackground_def)
  next
    case False
    then have "pass1_cell T cells row n x r = (None, r)"
      unfolding pass1_cell_def by (auto simp: nonSpacer_def split: option.splits)
    then show ?thesis using False by simp
  qed
  show "globalAlpha (the_ctx (snd (pass1_cell T cells row n x r))) = Finite 1"
  proof (cases "nonSpacer cells row n x")
    case True
    then show ?thesis
      unfolding pass1_cell_def using renderCellBackground_drawn(4)[OF a, of T _ x row] nonSpacer_cell[OF True] g
      by simp
  next
    case False
    then have "pass1_cell T cells row n x r = (None, r)"
      unfolding pass1_cell_def by (auto simp: nonSpacer_def split: option.splits)
    then show ?thesis using g by simp
  qed
qed

lemma pass1_loop:
  assumes a: "attached r" and g: "globalAlpha (the_ctx r) = Finite 1"
  shows "fst (forEach xs (pass1_cell T cells row n) r) = None
    \<and> snd (forEach xs (pass1_cell T cells row n) r) = r\<lparr> ctx := Some (the_ctx (snd (forEach xs (pass1_cell T cells row n) r))) \<rparr>
    \<and> drawn (the_ctx (snd (forEach xs (pass1_cell T cells row n) r))) =
         drawn (the_ctx r)
         @ concat (map (cellBackground T r cells row n) (filter (nonSpacer cells row n) xs))
    \<and> globalAlpha (the_ctx (snd (forEach xs (pass1_cell T cells row n) r))) = Finite 1"
  using a g
proof (induction xs arbitrary: r)
  case Nil
  have "ctx r = Some (the_ctx r)" using Nil(1) by (auto simp: attached_def the_ctx_def)
  then have "r = r\<lparr> ctx := Some (the_ctx r) \<rparr>" by simp
  then show ?case using Nil by simp
next
  case (Cons x xs)
  note s = pass1_step[OF Cons.prems, where cells=cells and row=row and n=n and T=T and x=x]
  let ?r1 = "snd (pass1_cell T cells row n x r)"
  have a1: "attached ?r1"
    using s(2) attached_canvas[OF Cons.prems(1)] by (metis attached_ctx)
  note ih = Cons.IH[OF a1 s(4)]
  have fe: "forEach (x # xs) (pass1_cell T cells row n) r = forEach xs (pass1_cell T cells row n) ?r1"
    using s(1) by (simp add: split_beta)
  have cb: "cellBackground T ?r1 = cellBackground T r"
    by (subst s(2)) simp
  have snd_eq: "snd (forEach xs (pass1_cell T cells row n) ?r1) = r\<lparr> ctx := Some (the_ctx (snd (forEach xs (pass1_cell T cells row n) ?r1))) \<rparr>"
  proof -
    have "snd (forEach xs (pass1_cell T cells row n) ?r1) = ?r1\<lparr> ctx := Some (the_ctx (snd (forEach xs (pass1_cell T cells row n) ?r1))) \<rparr>"
      using ih by simp
    also have "\<dots> = r\<lparr> ctx := Some (the_ctx (snd (forEach xs (pass1_cell T cells row n) ?r1))) \<rparr>"
      by (subst s(2)) simp
    finally show ?thesis .
  qed
  show ?case
    unfolding fe using ih snd_eq s(3) by (simp add: cb)
qed

lemma renderLine_cleared:
  assumes "attached r"
  shows "renderLine T r cells row n =
           andThen (renderLine_pass1 T cells row n) (renderLine_pass2 T cells row n)
             (clearedRow r row n)"
  unfolding renderLine_def requireContext_attached[OF assms] clearedRow_def
  by (simp add: Let_def)

lemma clearedRow_props:
  assumes "attached r"
  shows "attached (clearedRow r row n)"
    and "drawn (the_ctx (clearedRow r row n)) =
           drawn (the_ctx r)
           @ [FillRect (rgbaToCss (theme_background (theme r))) (globalAlpha (the_ctx r)) 0
                (of_nat row * height (metrics r)) (of_nat n * width (metrics r))
                (height (metrics r))]"
    and "globalAlpha (the_ctx (clearedRow r row n)) = globalAlpha (the_ctx r)"
    and "cellBackground T (clearedRow r row n) = cellBackground T r"
  using attached_canvas[OF assms]
  by (simp_all add: clearedRow_def fillRect_def)

text \<open>
  C6. On an attached renderer whose context has alpha 1, \<^verbatim>\<open>renderLine\<close> first clears the
  row to the theme background and then runs pass 1, which does not fail and paints, for
  the cells of the row that are present and are not spacers, in order, the background
  rectangle of the cell and, for a selected cell, the selection overlay. The background
  rectangle is filled with the foreground components when INVERSE is set and with the
  background components otherwise, and there is none when these components are all 0.
\<close>

theorem pass1_backgrounds:
  assumes "attached r" and "globalAlpha (the_ctx r) = Finite 1"
  shows "renderLine T r cells row n =
           andThen (renderLine_pass1 T cells row n) (renderLine_pass2 T cells row n)
             (clearedRow r row n)
    \<and> fst (renderLine_pass1 T cells row n (clearedRow r row n)) = None
    \<and> drawn (the_ctx (snd (renderLine_pass1 T cells row n (clearedRow r row n)))) =
        drawn (the_ctx r)
        @ [FillRect (rgbaToCss (theme_background (theme r))) (Finite 1) 0
             (of_nat row * height (metrics r)) (of_nat n * width (metrics r))
             (height (metrics r))]
        @ concat (map (cellBackground T r cells row n)
                    (filter (nonSpacer cells row n) [0 ..< n]))
    \<and> backgroundFill T r (Finite 1) cell x row =
        (if flags cell AND INVERSE T \<noteq> 0
         then (if fg_r cell = 0 \<and> fg_g cell = 0 \<and> fg_b cell = 0 then []
               else [FillRect (rgbToCSS (fg_r cell) (fg_g cell) (fg_b cell)) (Finite 1)
                       (of_nat x * width (metrics r)) (of_nat row * height (metrics r))
                       (width (metrics r) * of_nat (cell_width cell)) (height (metrics r))])
         else (if bg_r cell = 0 \<and> bg_g cell = 0 \<and> bg_b cell = 0 then []
               else [FillRect (rgbToCSS (bg_r cell) (bg_g cell) (bg_b cell)) (Finite 1)
                       (of_nat x * width (metrics r)) (of_nat row * height (metrics r))
                       (width (metrics r) * of_nat (cell_width cell)) (height (metrics r))]))"
proof -
  note cp = clearedRow_props(1-3)[OF assms(1), where row=row and n=n]
  note cp4 = clearedRow_props(4)[OF assms(1), where row=row and n=n and T=T]
  have g: "globalAlpha (the_ctx (clearedRow r row n)) = Finite 1"
    using cp(3) assms(2) by simp
  note l = pass1_loop[OF cp(1) g, where cells=cells and row=row and n=n and T=T
      and xs="[0 ..< n]", folded renderLine_pass1_def]
  have 1: "fst (renderLine_pass1 T cells row n (clearedRow r row n)) = None"
    using l by simp
  have 2: "drawn (the_ctx (snd (renderLine_pass1 T cells row n (clearedRow r row n)))) =
        drawn (the_ctx r)
        @ [FillRect (rgbaToCss (theme_background (theme r))) (Finite 1) 0
             (of_nat row * height (metrics r)) (of_nat n * width (metrics r))
             (height (metrics r))]
        @ concat (map (cellBackground T r cells row n)
                    (filter (nonSpacer cells row n) [0 ..< n]))"
    using l cp(2) assms(2) by (simp add: cp4)
  have 3: "backgroundFill T r (Finite 1) cell x row =
        (if flags cell AND INVERSE T \<noteq> 0
         then (if fg_r cell = 0 \<and> fg_g cell = 0 \<and> fg_b cell = 0 then []
               else [FillRect (rgbToCSS (fg_r cell) (fg_g cell) (fg_b cell)) (Finite 1)
                       (of_nat x * width (metrics r)) (of_nat row * height (metrics r))
                       (width (metrics r) * of_nat (cell_width cell)) (height (metrics r))])
         else (if bg_r cell = 0 \<and> bg_g cell = 0 \<and> bg_b cell = 0 then []
               else [FillRect (rgbToCSS (bg_r cell) (bg_g cell) (bg_b cell)) (Finite 1)
                       (of_nat x * width (metrics r)) (of_nat row * height (metrics r))
                       (width (metrics r) * of_nat (cell_width cell)) (height (metrics r))]))"
    by (simp add: backgroundFill_def backgroundComponents_def)
  show ?thesis using renderLine_cleared[OF assms(1)] 1 2 3 by blast
qed

lemma less_4: "j < (4::nat) \<longleftrightarrow> j = 0 \<or> j = 1 \<or> j = 2 \<or> j = 3"
  by auto

lemma ex_rows: "rows exampleInput = 4" "rowFlags exampleInput = [0, ROW_DIRTY, 0, 0]"
  by (simp_all add: exampleInput_def)

lemma flagged_0: "\<not> flagged 0" "flagged ROW_DIRTY"
  by (simp_all add: flagged_def ROW_DIRTY_def)

lemma exampleInput_flags:
  "\<forall>j < rows exampleInput. flagged (rowFlag exampleInput j) \<longleftrightarrow> j = 1"
  unfolding ex_rows less_4 rowFlag_def
  by (auto simp add: flagged_0)

lemma upto_4: "{0 ..< 4 :: nat} = {0, 1, 2, 3}"
  by auto

lemma attached_example: "attached attachedRenderer"
  by (simp add: attached_def attachedRenderer_def)

lemma the_ctx_example: "the_ctx attachedRenderer = blankContext"
  by (simp add: the_ctx_def attachedRenderer_def)

theorem draw_calls_require_attach_witness:
  "canvas unattachedRenderer = None \<and> ctx unattachedRenderer = None
   \<and> render T0 unattachedRenderer exampleInput = (Some NotAttached, unattachedRenderer)
   \<and> resize unattachedRenderer 3 4 = (Some NotAttached, unattachedRenderer)
   \<and> clear unattachedRenderer = (Some NotAttached, unattachedRenderer)
   \<and> getCanvas unattachedRenderer = Inl NotAttached
   \<and> attach unattachedRenderer exampleCanvas = (None, attachedRenderer)
   \<and> fst (resize attachedRenderer 3 4) = None
   \<and> fst (render T0 attachedRenderer exampleInput) \<noteq> Some NotAttached
   \<and> fst (clear attachedRenderer) = None
   \<and> getCanvas attachedRenderer = Inr exampleCanvas"
proof -
  have u: "canvas unattachedRenderer = None \<and> ctx unattachedRenderer = None"
    by (simp add: unattachedRenderer_def)
  have a: "attach unattachedRenderer exampleCanvas = (None, attachedRenderer)"
    by (simp add: attach_def attachedRenderer_def exampleCanvas_def Let_def)
  show ?thesis
    using draw_calls_require_attach
      [of unattachedRenderer 3 4 T0 exampleInput exampleCanvas attachedRenderer] u a
    by blast
qed

lemma upt_3: "[0 ..< 3] = [0, Suc 0, Suc (Suc 0)]"
  by (simp add: upt_conv_Cons)

theorem pass1_backgrounds_witness:
  "attached attachedRenderer \<and> globalAlpha (the_ctx attachedRenderer) = Finite 1
   \<and> fst (renderLine_pass1 T0
        [plainCell, plainCell\<lparr> fg_r := 255, fg_g := 0, fg_b := 0, flags := 16 \<rparr>,
         plainCell\<lparr> bg_r := 9, cell_width := 0 \<rparr>] 0 3 (clearedRow attachedRenderer 0 3)) = None
   \<and> drawn (the_ctx (snd (renderLine_pass1 T0
        [plainCell, plainCell\<lparr> fg_r := 255, fg_g := 0, fg_b := 0, flags := 16 \<rparr>,
         plainCell\<lparr> bg_r := 9, cell_width := 0 \<rparr>] 0 3 (clearedRow attachedRenderer 0 3))))
      = [FillRect (CssRgb (Finite 30) (Finite 30) (Finite 30)) (Finite 1) 0 0 30 20,
         FillRect (CssRgb (Finite 255) (Finite 0) (Finite 0)) (Finite 1) 10 0 10 20]"
proof -
  let ?cells = "[plainCell, plainCell\<lparr> fg_r := 255, fg_g := 0, fg_b := 0, flags := 16 \<rparr>,
         plainCell\<lparr> bg_r := 9, cell_width := 0 \<rparr>]"
  have h: "attached attachedRenderer" "globalAlpha (the_ctx attachedRenderer) = Finite 1"
    by (simp_all add: attached_example the_ctx_example blankContext_def)
  have m: "metrics attachedRenderer = \<lparr> width = 10, height = 20, baseline = 16 \<rparr>"
    "theme attachedRenderer = exampleTheme" "currentSelectionRange attachedRenderer = None"
    by (simp_all add: attachedRenderer_def unattachedRenderer_def)
  have d: "drawn (the_ctx attachedRenderer) = []"
    by (simp add: the_ctx_example blankContext_def)
  have n: "filter (nonSpacer ?cells 0 3) [0 ..< 3] = [0, Suc 0]"
    by (simp add: upt_3 nonSpacer_def nth_cell_def plainCell_def)
  have c0: "cellBackground T0 attachedRenderer ?cells 0 3 0 = []"
    by (simp add: cellBackground_def backgroundFill_def backgroundComponents_def
        selectionOverlay_def isInSelection_def m plainCell_def T0_def)
  have c1: "cellBackground T0 attachedRenderer ?cells 0 3 (Suc 0) =
      [FillRect (CssRgb (Finite 255) (Finite 0) (Finite 0)) (Finite 1) 10 0 10 20]"
    by (simp add: cellBackground_def backgroundFill_def backgroundComponents_def
        selectionOverlay_def isInSelection_def m plainCell_def T0_def rgbToCSS_def)
  have bg: "rgbaToCss (theme_background (theme attachedRenderer)) =
      CssRgb (Finite 30) (Finite 30) (Finite 30)"
    by (simp add: m exampleTheme_def rgbaToCss_opaque)
  from pass1_backgrounds [OF h, of T0 ?cells 0 3 plainCell 0] h
  show ?thesis
    unfolding n bg d by (simp add: c0 c1 m)
qed

lemma rowsToRender_none:
  assumes "dirtyState input \<noteq> FULL T" and "\<forall>k < rows input. \<not> flagged (rowFlag input k)"
  shows "rowsToRender T input = {}"
  using assms by (auto simp add: rowsToRender_char)

lemma forEach_none: "forEach xs (\<lambda>x r. (None, r)) r = (None, r)"
  by (induction xs) simp_all

lemma renderRows_empty: "renderRows T input {} r = (None, r)"
  by (simp add: renderRows_def forEach_none)

lemma render_idle:
  assumes "attached r" and "rowsToRender T input = {}" and "\<not> cursorVisible input"
  shows "render T r input =
     (let r1 = r\<lparr> theme := input_theme input,
                  currentSelectionRange := selectionRange input,
                  currentHoveredLink := hoveredLink input,
                  currentGetGraphemeString := Some (getGraphemeString input) \<rparr>
      in if scrollbarOpacity input > 0 \<and> scrollbackLength input > 0
         then renderScrollbar r1 (viewportY input) (scrollbackLength input) (rows input)
                (scrollbarOpacity input)
         else (None, r1))"
  unfolding render_def requireContext_attached[OF assms(1)]
  using assms(2,3) by (simp add: Let_def andThen_def renderRows_empty)

lemma fadeInput_fields:
  "rows (fadeInput op) = 4" "rowFlags (fadeInput op) = [0, 0, 0, 0]"
  "dirtyState (fadeInput op) = 1" "cursorVisible (fadeInput op) = False"
  "scrollbarOpacity (fadeInput op) = op" "scrollbackLength (fadeInput op) = 100"
  "viewportY (fadeInput op) = 0" "input_theme (fadeInput op) = exampleTheme"
  "selectionRange (fadeInput op) = None" "hoveredLink (fadeInput op) = None"
  "getGraphemeString (fadeInput op) = (\<lambda>row col. [])"
  by (simp_all add: fadeInput_def exampleInput_def)

lemma fade_rows: "rowsToRender T0 (fadeInput op) = {}"
proof (rule rowsToRender_none)
  show "dirtyState (fadeInput op) \<noteq> FULL T0"
    by (simp add: fadeInput_fields T0_def)
  show "\<forall>k < rows (fadeInput op). \<not> flagged (rowFlag (fadeInput op) k)"
    unfolding fadeInput_fields less_4 rowFlag_def by (auto simp add: flagged_0)
qed

lemma attached_faded: "attached fadedRenderer"
  by (simp add: fadedRenderer_def attached_def attachedRenderer_def)

lemma frame1: "render T0 attachedRenderer (fadeInput (1 / 2)) = (None, fadedRenderer)"
proof -
  have bg: "rgbaToCss (rgba 30 30 30 1) = CssRgb (Finite 30) (Finite 30) (Finite 30)"
    by (rule rgbaToCss_opaque)
  show ?thesis
    unfolding render_idle[OF attached_example fade_rows, of "1 / 2", unfolded fadeInput_fields, simplified]
    by (simp add: fadeInput_fields renderScrollbar_def requireContext_def requireCanvas_def
        attachedRenderer_def unattachedRenderer_def exampleCanvas_def Let_def fillRect_def
        exampleTheme_def bg blankContext_def fadedRenderer_def)
qed

lemma frame2: "render T0 fadedRenderer (fadeInput 0) = (None, fadedRenderer)"
  unfolding render_idle[OF attached_faded fade_rows, of 0, unfolded fadeInput_fields, simplified]
  by (simp add: fadeInput_fields fadedRenderer_def attachedRenderer_def unattachedRenderer_def)

text \<open>
  C8 on the code. A frame at scrollbar opacity 1/2 with no dirty row paints the cleared
  strip, the track and the thumb (20 pixels high). The next frame, at opacity 0 and with
  scrollback still present, returns normally and paints nothing: \<^verbatim>\<open>render\<close> does not
  call \<^verbatim>\<open>renderScrollbar\<close>, so the strip is not cleared and the thumb stays the last thing
  painted there.
\<close>

theorem render_fade_out_keeps_thumb:
  "render T0 attachedRenderer (fadeInput (1 / 2)) = (None, fadedRenderer)
   \<and> scrollbarOpacity (fadeInput 0) = 0 \<and> scrollbackLength (fadeInput 0) = 100
   \<and> render T0 fadedRenderer (fadeInput 0) = (None, fadedRenderer)
   \<and> last (drawn (the_ctx fadedRenderer)) =
       FillRect (CssRgba (Finite 128) (Finite 128) (Finite 128) (Finite (3 / 20)))
         (Finite 1) 288 126 8 20"
  by (simp add: frame1 frame2 fadeInput_fields) (simp add: fadedRenderer_def the_ctx_def)

lemma later_refl: "attached r \<Longrightarrow> later r r"
  by (simp add: later_def)

lemma later_trans: "later a b \<Longrightarrow> later b c \<Longrightarrow> later a c"
  unfolding later_def
  by (metis (no_types, lifting) CanvasRenderer.surjective CanvasRenderer.update_convs(2) append.assoc)

lemma later_drawn: "later r r' \<Longrightarrow> drawn (the_ctx r') = drawn (the_ctx r) @ painted r r'"
  by (auto simp add: later_def painted_def)

lemma painted_trans: "later a b \<Longrightarrow> later b c \<Longrightarrow> painted a c = painted a b @ painted b c"
  using later_drawn[of a b] later_drawn[of b c] later_drawn[of a c] later_trans[of a b c]
  by simp

lemma later_ctx: "attached r \<Longrightarrow> drawn c = drawn (the_ctx r) @ ds \<Longrightarrow> later r (r\<lparr> ctx := Some c \<rparr>)"
  by (simp add: later_def attached_def)

lemma later_fields:
  assumes "later r r'"
  shows "theme r' = theme r" "metrics r' = metrics r" "canvas r' = canvas r"
    "currentSelectionRange r' = currentSelectionRange r"
    "currentHoveredLink r' = currentHoveredLink r"
    "currentGetGraphemeString r' = currentGetGraphemeString r"
    "fontSize r' = fontSize r" "fontFamily r' = fontFamily r"
    "devicePixelRatio r' = devicePixelRatio r" "isInSelection r' = isInSelection r"
proof -
  have e: "r' = r\<lparr> ctx := ctx r' \<rparr>" using assms by (simp add: later_def)
  show "theme r' = theme r" by (subst e) simp
  show "metrics r' = metrics r" by (subst e) simp
  show "canvas r' = canvas r" by (subst e) simp
  show "currentSelectionRange r' = currentSelectionRange r" by (subst e) simp
  show "currentHoveredLink r' = currentHoveredLink r" by (subst e) simp
  show "currentGetGraphemeString r' = currentGetGraphemeString r" by (subst e) simp
  show "fontSize r' = fontSize r" by (subst e) simp
  show "fontFamily r' = fontFamily r" by (subst e) simp
  show "devicePixelRatio r' = devicePixelRatio r" by (subst e) simp
  show "isInSelection r' = isInSelection r" by (subst e) simp
qed

lemma steps_skip: "steps (\<lambda>r. (None, r))"
  by (simp add: steps_def ready_def later_refl)

lemma steps_if: "steps f \<Longrightarrow> steps g \<Longrightarrow> steps (\<lambda>r. if b then f r else g r)"
  by (simp add: steps_def)

lemma steps_andThen: "steps f \<Longrightarrow> steps g \<Longrightarrow> steps (andThen f g)"
  unfolding steps_def
proof (intro allI impI)
  fix r assume s: "\<forall>r. ready r \<longrightarrow> later r (snd (f r)) \<and> (fst (f r) = None \<longrightarrow> ready (snd (f r)))"
    "\<forall>r. ready r \<longrightarrow> later r (snd (g r)) \<and> (fst (g r) = None \<longrightarrow> ready (snd (g r)))"
    and r: "ready r"
  show "later r (snd (andThen f g r)) \<and> (fst (andThen f g r) = None \<longrightarrow> ready (snd (andThen f g r)))"
  proof (cases "fst (f r)")
    case None
    then have e: "andThen f g r = g (snd (f r))"
      by (simp add: andThen_def split_beta)
    have "ready (snd (f r))" "later r (snd (f r))" using s(1) r None by auto
    then show ?thesis unfolding e using s(2) later_trans by blast
  next
    case (Some e)
    then have "andThen f g r = f r"
      by (cases "f r") (simp add: andThen_def)
    then show ?thesis using s(1) r Some by simp
  qed
qed

lemma steps_forEach:
  assumes "\<And>x. steps (f x)"
  shows "steps (forEach xs f)"
  unfolding steps_def
proof (intro allI impI)
  fix r assume "ready r"
  then show "later r (snd (forEach xs f r)) \<and> (fst (forEach xs f r) = None \<longrightarrow> ready (snd (forEach xs f r)))"
  proof (induction xs arbitrary: r)
    case Nil
    then show ?case by (simp add: ready_def later_refl)
  next
    case (Cons x xs)
    have s: "later r (snd (f x r))" "fst (f x r) = None \<longrightarrow> ready (snd (f x r))"
      using assms[of x] Cons.prems by (auto simp: steps_def)
    show ?case
    proof (cases "fst (f x r)")
      case None
      then have e: "forEach (x # xs) f r = forEach xs f (snd (f x r))"
        by (simp add: split_beta)
      show ?thesis unfolding e using Cons.IH[of "snd (f x r)"] s None later_trans by blast
    next
      case (Some e)
      then have "forEach (x # xs) f r = f x r"
        by (cases "f x r") simp
      then show ?thesis using s Some by simp
    qed
  qed
qed

lemma forEach_visit:
  assumes st: "\<And>x. steps (f x)"
    and "ready r" and "fst (forEach xs f r) = None" and "x \<in> set xs"
  shows "\<exists>r'. ready r' \<and> later r r' \<and> fst (f x r') = None
              \<and> later (snd (f x r')) (snd (forEach xs f r))"
  using assms(2-4)
proof (induction xs arbitrary: r)
  case Nil
  then show ?case by simp
next
  case (Cons z zs)
  have s: "later r (snd (f z r))" "fst (f z r) = None \<longrightarrow> ready (snd (f z r))"
    using st[of z] Cons.prems(1) by (auto simp: steps_def)
  have n: "fst (f z r) = None"
    using Cons.prems(2) by (cases "fst (f z r)") (simp_all add: split_beta)
  then have e: "forEach (z # zs) f r = forEach zs f (snd (f z r))"
    by (simp add: split_beta)
  have rd: "ready (snd (f z r))" using s n by simp
  have fin: "fst (forEach zs f (snd (f z r))) = None" using Cons.prems(2) e by simp
  show ?case
  proof (cases "x = z")
    case True
    have "later (snd (f z r)) (snd (forEach zs f (snd (f z r))))"
      using steps_forEach[of f zs, OF st] rd by (simp add: steps_def)
    then show ?thesis
      unfolding e using True Cons.prems(1) n later_refl[of r] by (auto simp: ready_def)
  next
    case False
    then have "x \<in> set zs" using Cons.prems(3) by simp
    from Cons.IH[OF rd fin this]
    obtain r' where "ready r'" "later (snd (f z r)) r'" "fst (f x r') = None"
      "later (snd (f x r')) (snd (forEach zs f (snd (f z r))))" by blast
    then show ?thesis unfolding e using s(1) later_trans by blast
  qed
qed

lemma in_painted:
  assumes "later a b" "later b c" "later c d" and "e \<in> set (painted b c)"
  shows "e \<in> set (painted a d)"
proof -
  have "painted a d = painted a b @ painted b d"
    using painted_trans[OF assms(1) later_trans[OF assms(2,3)]] .
  also have "painted b d = painted b c @ painted c d"
    using painted_trans[OF assms(2,3)] .
  finally show ?thesis using assms(4) by simp
qed

lemma strokeLine_props:
  "drawn (strokeLine c s x1 x2 y) = drawn c @ [Stroke s 1 [MoveTo x1 y, LineTo x2 y]]"
  "globalAlpha (strokeLine c s x1 x2 y) = globalAlpha c"
  "fillStyle (strokeLine c s x1 x2 y) = fillStyle c"
  by (simp_all add: strokeLine_def stroke_def lineTo_def moveTo_def beginPath_def)

lemma decorations_props:
  "\<exists>ds. drawn (decorations T r c cell x y) = drawn c @ ds"
  "globalAlpha (decorations T r c cell x y) = globalAlpha c"
  by (simp_all add: decorations_def Let_def strokeLine_props split: option.splits)

lemma textStyle_props:
  "drawn (textStyle T r c cell x y) = drawn c"
  "globalAlpha (textStyle T r c cell x y) =
     (if flags cell AND FAINT T \<noteq> 0 then Finite (1 / 2) else globalAlpha c)"
  "font (textStyle T r c cell x y) =
     Font ((if flags cell AND ITALIC T \<noteq> 0 then ''italic '' else [])
           @ (if flags cell AND BOLD T \<noteq> 0 then ''bold '' else [])) (fontSize r) (fontFamily r)"
  by (simp_all add: textStyle_def Let_def split: option.splits)

lemma ready_ctx: "ready r \<Longrightarrow> ctx r = Some (the_ctx r)"
  by (auto simp: ready_def attached_def the_ctx_def)

lemma renderCellText_painted:
  assumes a: "attached r"
    and v: "flags cell AND INVISIBLE T = 0" and t: "cellChar r cell x y = Inr t"
  shows "fst (renderCellText T r cell x y) = None"
    and "\<exists>ds. drawn (the_ctx (snd (renderCellText T r cell x y))) =
           drawn (the_ctx r)
           @ [FillText (fillStyle (textStyle T r (the_ctx r) cell x y))
                (globalAlpha (textStyle T r (the_ctx r) cell x y))
                (font (textStyle T r (the_ctx r) cell x y)) t
                (of_nat x * width (metrics r))
                (of_nat y * height (metrics r) + baseline (metrics r))] @ ds"
proof -
  show "fst (renderCellText T r cell x y) = None"
    unfolding renderCellText_def requireContext_attached[OF a] by (simp add: v t Let_def)
  let ?c3 = "textStyle T r (the_ctx r) cell x y"
  let ?c4 = "fillText ?c3 t (of_nat x * width (metrics r))
               (of_nat y * height (metrics r) + baseline (metrics r))"
  let ?c5 = "if flags cell AND FAINT T \<noteq> 0 then ?c4\<lparr> globalAlpha := Finite 1 \<rparr> else ?c4"
  have e: "renderCellText T r cell x y = (None, r\<lparr> ctx := Some (decorations T r ?c5 cell x y) \<rparr>)"
    unfolding renderCellText_def requireContext_attached[OF a] by (simp add: v t Let_def)
  obtain ds where ds: "drawn (decorations T r ?c5 cell x y) = drawn ?c5 @ ds"
    using decorations_props(1) by blast
  have "drawn ?c5 = drawn (the_ctx r) @ [FillText (fillStyle ?c3) (globalAlpha ?c3) (font ?c3) t
           (of_nat x * width (metrics r)) (of_nat y * height (metrics r) + baseline (metrics r))]"
    by (simp add: fillText_def textStyle_props(1))
  then show "\<exists>ds. drawn (the_ctx (snd (renderCellText T r cell x y))) =
           drawn (the_ctx r)
           @ [FillText (fillStyle ?c3) (globalAlpha ?c3) (font ?c3) t
                (of_nat x * width (metrics r))
                (of_nat y * height (metrics r) + baseline (metrics r))] @ ds"
    unfolding e using ds by simp
qed

lemma steps_renderCellText: "steps (\<lambda>r. renderCellText T r cell x y)"
  unfolding steps_def
proof (intro allI impI)
  fix r assume r: "ready r"
  then have a: "attached r" and g: "globalAlpha (the_ctx r) = Finite 1"
    by (simp_all add: ready_def)
  note c = attached_canvas[OF a]
  let ?f = "renderCellText T r cell x y"
  show "later r (snd ?f) \<and> (fst ?f = None \<longrightarrow> ready (snd ?f))"
  proof (cases "flags cell AND INVISIBLE T = 0")
    case False
    then have "?f = (None, r)"
      unfolding renderCellText_def requireContext_attached[OF a] by simp
    then show ?thesis using r a by (simp add: later_refl)
  next
    case True
    show ?thesis
    proof (cases "cellChar r cell x y")
      case (Inl e)
      have "?f = (Some e, r\<lparr> ctx := Some (textStyle T r (the_ctx r) cell x y) \<rparr>)"
        unfolding renderCellText_def requireContext_attached[OF a] by (simp add: True Inl Let_def)
      then show ?thesis using later_ctx[OF a, of "textStyle T r (the_ctx r) cell x y" "[]"]
        by (simp add: textStyle_props)
    next
      case (Inr t)
      let ?c3 = "textStyle T r (the_ctx r) cell x y"
      let ?c4 = "fillText ?c3 t (of_nat x * width (metrics r))
                   (of_nat y * height (metrics r) + baseline (metrics r))"
      let ?c5 = "if flags cell AND FAINT T \<noteq> 0 then ?c4\<lparr> globalAlpha := Finite 1 \<rparr> else ?c4"
      have e: "?f = (None, r\<lparr> ctx := Some (decorations T r ?c5 cell x y) \<rparr>)"
        unfolding renderCellText_def requireContext_attached[OF a] by (simp add: True Inr Let_def)
      obtain ds where ds: "drawn (decorations T r ?c5 cell x y) = drawn ?c5 @ ds"
        using decorations_props(1) by blast
      have d5: "drawn ?c5 = drawn (the_ctx r) @ [FillText (fillStyle ?c3) (globalAlpha ?c3) (font ?c3) t
           (of_nat x * width (metrics r)) (of_nat y * height (metrics r) + baseline (metrics r))]"
        by (simp add: fillText_def textStyle_props(1))
      have g5: "globalAlpha ?c5 = Finite 1"
        using g by (simp add: fillText_def textStyle_props(2))
      have l: "later r (r\<lparr> ctx := Some (decorations T r ?c5 cell x y) \<rparr>)"
        by (rule later_ctx[OF a]) (simp only: ds d5 append_assoc)
      have "ready (r\<lparr> ctx := Some (decorations T r ?c5 cell x y) \<rparr>)"
        using c g5 by (simp add: ready_def decorations_props(2))
      then show ?thesis unfolding e using l by simp
    qed
  qed
qed

lemma steps_renderCellBackground: "steps (\<lambda>r. renderCellBackground T r cell x y)"
  unfolding steps_def
proof (intro allI impI)
  fix r assume r: "ready r"
  then have a: "attached r" and g: "globalAlpha (the_ctx r) = Finite 1"
    by (simp_all add: ready_def)
  note p = renderCellBackground_drawn[OF a, of T cell x y]
  let ?r' = "snd (renderCellBackground T r cell x y)"
  have at: "attached ?r'"
    using ends_in_renderCellBackground[of T cell x y] a by (simp add: ends_in_def)
  have "later r ?r'"
    unfolding later_def using at p(2) p(3)
    by (metis CanvasRenderer.surjective CanvasRenderer.update_convs(2) CanvasRenderer.select_convs(2))
  moreover have "ready ?r'" using at p(4) g by (simp add: ready_def)
  ultimately show "later r ?r' \<and> (fst (renderCellBackground T r cell x y) = None \<longrightarrow> ready ?r')"
    by simp
qed

lemma steps_pass1_cell: "steps (pass1_cell T cells row n x)"
  using steps_renderCellBackground[of T _ x row] steps_skip
  by (auto simp: steps_def pass1_cell_def split: option.splits)

lemma steps_pass2_cell: "steps (pass2_cell T cells row n x)"
  using steps_renderCellText[of T _ x row] steps_skip
  by (auto simp: steps_def pass2_cell_def split: option.splits)

lemma steps_pass1: "steps (renderLine_pass1 T cells row n)"
  unfolding renderLine_pass1_def by (rule steps_forEach) (rule steps_pass1_cell)

lemma steps_pass2: "steps (renderLine_pass2 T cells row n)"
  unfolding renderLine_pass2_def by (rule steps_forEach) (rule steps_pass2_cell)

lemma clearedRow_later:
  assumes "ready r"
  shows "ready (clearedRow r row n)" and "later r (clearedRow r row n)"
    and "painted r (clearedRow r row n) =
           [FillRect (rgbaToCss (theme_background (theme r))) (Finite 1) 0
              (of_nat row * height (metrics r)) (of_nat n * width (metrics r))
              (height (metrics r))]"
proof -
  have a: "attached r" and g: "globalAlpha (the_ctx r) = Finite 1"
    using assms by (simp_all add: ready_def)
  note cp = clearedRow_props(1-3)[OF a, of row n]
  show "ready (clearedRow r row n)" using cp g by (simp add: ready_def)
  show "later r (clearedRow r row n)"
    unfolding later_def using cp(1,2) by (simp add: clearedRow_def)
  show "painted r (clearedRow r row n) =
           [FillRect (rgbaToCss (theme_background (theme r))) (Finite 1) 0
              (of_nat row * height (metrics r)) (of_nat n * width (metrics r))
              (height (metrics r))]"
    using cp(2) g by (simp add: painted_def)
qed

lemma steps_renderLine: "steps (\<lambda>r. renderLine T r cells row n)"
  unfolding steps_def
proof (intro allI impI)
  fix r assume r: "ready r"
  then have a: "attached r" by (simp add: ready_def)
  note c = clearedRow_later[OF r, of row n]
  have s: "steps (andThen (renderLine_pass1 T cells row n) (renderLine_pass2 T cells row n))"
    by (rule steps_andThen[OF steps_pass1 steps_pass2])
  show "later r (snd (renderLine T r cells row n))
        \<and> (fst (renderLine T r cells row n) = None \<longrightarrow> ready (snd (renderLine T r cells row n)))"
    unfolding renderLine_cleared[OF a]
    using s c(1) later_trans[OF c(2)] by (auto simp: steps_def)
qed

lemma steps_renderCursor: "steps (\<lambda>r. renderCursor r x y style)"
  unfolding steps_def
proof (intro allI impI)
  fix r assume r: "ready r"
  then have a: "attached r" and g: "globalAlpha (the_ctx r) = Finite 1"
    by (simp_all add: ready_def)
  note c = attached_canvas[OF a]
  show "later r (snd (renderCursor r x y style))
        \<and> (fst (renderCursor r x y style) = None \<longrightarrow> ready (snd (renderCursor r x y style)))"
    unfolding renderCursor_def requireContext_attached[OF a]
    using c g
    by (cases style) (simp_all add: Let_def later_def ready_def fillRect_def)
qed

lemma steps_renderScrollbar: "steps (\<lambda>r. renderScrollbar r vy sl vr op)"
  unfolding steps_def
proof (intro allI impI)
  fix r assume r: "ready r"
  then have a: "attached r" and g: "globalAlpha (the_ctx r) = Finite 1"
    by (simp_all add: ready_def)
  obtain cv where cv: "requireCanvas r = Inr cv" "canvas r = Some cv"
    using requireCanvas_attached[OF a] by blast
  show "later r (snd (renderScrollbar r vy sl vr op))
        \<and> (fst (renderScrollbar r vy sl vr op) = None \<longrightarrow> ready (snd (renderScrollbar r vy sl vr op)))"
    unfolding renderScrollbar_def requireContext_attached[OF a] cv(1)
    using cv(2) g
    by (simp add: Let_def later_def ready_def fillRect_def)
qed

lemma render_rows:
  "render T r input =
     (case requireContext r of
        Inl e \<Rightarrow> (Some e, r)
      | Inr _ \<Rightarrow>
          andThen
            (forEach (renderedRows T input)
               (\<lambda>y r'. renderLine T r' (viewportCells input) y (cols input)))
            (andThen
               (\<lambda>r'. if cursorVisible input
                      then renderCursor r' (cursorX input) (cursorY input) (cursorStyle input)
                      else (None, r'))
               (\<lambda>r'. if scrollbarOpacity input > 0 \<and> scrollbackLength input > 0
                      then renderScrollbar r' (viewportY input) (scrollbackLength input)
                             (rows input) (scrollbarOpacity input)
                      else (None, r')))
            (withFrame r input))"
  by (simp add: render_def renderRows_filter withFrame_def Let_def split: sum.splits)

lemma renderedRows_ordered: "sorted (renderedRows T input)" "distinct (renderedRows T input)"
  by (simp_all add: renderedRows_def sorted_wrt_filter)

lemma renderedRows_full:
  assumes "dirtyState input = FULL T"
  shows "renderedRows T input = [0 ..< rows input]"
proof -
  have "\<forall>y \<in> set [0 ..< rows input]. y \<in> rowsToRender T input"
    using assms by (auto simp add: rowsToRender_char)
  then show ?thesis unfolding renderedRows_def by (simp only: filter_True)
qed

lemma render_unattached: "\<not> attached r \<Longrightarrow> render T r input = (Some NotAttached, r)"
  by (auto simp add: render_def attached_def requireContext_def split: option.splits)

lemma withFrame_props:
  "the_ctx (withFrame r input) = the_ctx r" "attached (withFrame r input) = attached r"
  "theme (withFrame r input) = input_theme input" "metrics (withFrame r input) = metrics r"
  "ready (withFrame r input) = ready r"
  "painted (withFrame r input) = painted r"
  "currentSelectionRange (withFrame r input) = selectionRange input"
  "currentGetGraphemeString (withFrame r input) = Some (getGraphemeString input)"
  "fontSize (withFrame r input) = fontSize r" "fontFamily (withFrame r input) = fontFamily r"
  by (simp_all add: withFrame_def the_ctx_def attached_def ready_def painted_def fun_eq_iff)

lemma forEach_raises:
  assumes "fst (forEach xs f s) = Some e"
  shows "\<exists>ys y zs. xs = ys @ y # zs \<and> fst (forEach ys f s) = None
           \<and> forEach xs f s = f y (snd (forEach ys f s))"
  using assms
proof (induction xs arbitrary: s)
  case Nil
  then show ?case by simp
next
  case (Cons x xs)
  show ?case
  proof (cases "fst (f x s)")
    case None
    then have e: "forEach (x # xs) f s = forEach xs f (snd (f x s))"
      by (simp add: split_beta)
    then have "fst (forEach xs f (snd (f x s))) = Some e" using Cons.prems by simp
    from Cons.IH[OF this] obtain ys y zs where
      h: "xs = ys @ y # zs" "fst (forEach ys f (snd (f x s))) = None"
         "forEach xs f (snd (f x s)) = f y (snd (forEach ys f (snd (f x s))))" by blast
    have e2: "forEach (x # ys) f s = forEach ys f (snd (f x s))"
      using None by (simp add: split_beta)
    have "x # xs = (x # ys) @ y # zs \<and> fst (forEach (x # ys) f s) = None
           \<and> forEach (x # xs) f s = f y (snd (forEach (x # ys) f s))"
      unfolding e e2 using h by simp
    then show ?thesis by blast
  next
    case (Some e')
    then have "forEach (x # xs) f s = f x s"
      by (cases "f x s") simp
    then have "x # xs = [] @ x # xs \<and> fst (forEach [] f s) = None
           \<and> forEach (x # xs) f s = f x (snd (forEach [] f s))" by simp
    then show ?thesis by blast
  qed
qed

text \<open>The steps after the rows.\<close>

lemma steps_tail:
  "steps (andThen
            (\<lambda>r'. if cursorVisible input
                   then renderCursor r' (cursorX input) (cursorY input) (cursorStyle input)
                   else (None, r'))
            (\<lambda>r'. if scrollbarOpacity input > 0 \<and> scrollbackLength input > 0
                   then renderScrollbar r' (viewportY input) (scrollbackLength input)
                          (rows input) (scrollbarOpacity input)
                   else (None, r')))"
  by (intro steps_andThen steps_if steps_renderCursor steps_renderScrollbar steps_skip)

lemma ends_in_tail:
  "ends_in {None} (andThen
            (\<lambda>r'. if cursorVisible input
                   then renderCursor r' (cursorX input) (cursorY input) (cursorStyle input)
                   else (None, r'))
            (\<lambda>r'. if scrollbarOpacity input > 0 \<and> scrollbackLength input > 0
                   then renderScrollbar r' (viewportY input) (scrollbackLength input)
                          (rows input) (scrollbarOpacity input)
                   else (None, r')))"
  by (intro ends_in_andThen ends_in_if ends_in_renderCursor ends_in_renderScrollbar ends_in_skip)
     simp_all

lemma andThen_cases:
  "fst (f s) = None \<Longrightarrow> andThen f g s = g (snd (f s))"
  "fst (f s) = Some e \<Longrightarrow> andThen f g s = f s"
  by (cases "f s"; simp add: andThen_def)+

lemma ends_in_rows:
  "ends_in {None, Some RangeError}
     (forEach ys (\<lambda>y r'. renderLine T r' cells y n))"
  by (rule ends_in_forEach) (simp_all add: ends_in_renderLine)

lemma valid_pass2_cell:
  assumes "list_all (\<lambda>cell. codepoint cell \<le> 1114111) cells"
  shows "ends_in {None} (pass2_cell T cells row n x)"
  unfolding ends_in_def
proof (intro allI impI)
  fix r assume a: "attached r"
  show "attached (snd (pass2_cell T cells row n x r)) \<and> fst (pass2_cell T cells row n x r) \<in> {None}"
  proof (cases "nth_cell cells (row * n + x)")
    case None
    then show ?thesis using a by (simp add: pass2_cell_def)
  next
    case (Some cell)
    then have "cell \<in> set cells"
      by (auto simp: nth_cell_def split: if_splits)
    then have "codepoint cell \<le> 1114111" using assms by (simp add: list_all_iff)
    then show ?thesis
      using Some a renderCellText_outcome(1)[OF a, where T=T and cell=cell and x=x and y=row]
        renderCellText_outcome(3)[OF a, where T=T and cell=cell and x=x and y=row]
      by (simp add: pass2_cell_def)
  qed
qed

lemma valid_renderLine:
  assumes "list_all (\<lambda>cell. codepoint cell \<le> 1114111) cells"
  shows "ends_in {None} (\<lambda>r. renderLine T r cells row n)"
  unfolding ends_in_def
proof (intro allI impI)
  fix r assume a: "attached r"
  have p2: "ends_in {None} (renderLine_pass2 T cells row n)"
    unfolding renderLine_pass2_def
    by (rule ends_in_forEach) (simp_all add: valid_pass2_cell[OF assms])
  have e: "ends_in {None}
             (andThen (renderLine_pass1 T cells row n) (renderLine_pass2 T cells row n))"
    by (rule ends_in_andThen[OF ends_in_pass1 p2])
  show "attached (snd (renderLine T r cells row n)) \<and> fst (renderLine T r cells row n) \<in> {None}"
    unfolding renderLine_cleared[OF a]
    using e clearedRow_props(1)[OF a, of row n] by (simp add: ends_in_def)
qed

lemma valid_render:
  assumes a: "attached r"
    and v: "list_all (\<lambda>cell. codepoint cell \<le> 1114111) (viewportCells input)"
  shows "fst (render T r input) = None"
proof -
  have rows: "ends_in {None}
      (forEach (renderedRows T input) (\<lambda>y r'. renderLine T r' (viewportCells input) y (cols input)))"
    by (rule ends_in_forEach) (simp_all add: valid_renderLine[OF v])
  have a1: "attached (withFrame r input)" using a by (simp add: withFrame_props)
  show ?thesis
    unfolding render_rows requireContext_attached[OF a]
    using ends_in_andThen[OF rows ends_in_tail[of input]] a1
    by (simp add: ends_in_def)
qed

lemma render_outcomes:
  assumes a: "attached r"
  shows "fst (render T r input) = None \<Longrightarrow>
           fst (forEach (renderedRows T input)
                  (\<lambda>y r'. renderLine T r' (viewportCells input) y (cols input))
                  (withFrame r input)) = None"
    and "fst (render T r input) = Some e \<Longrightarrow>
           render T r input =
             forEach (renderedRows T input)
               (\<lambda>y r'. renderLine T r' (viewportCells input) y (cols input))
               (withFrame r input)"
proof -
  let ?rows = "forEach (renderedRows T input)
                 (\<lambda>y r'. renderLine T r' (viewportCells input) y (cols input))"
  let ?r1 = "withFrame r input"
  have a1: "attached ?r1" using a by (simp add: withFrame_props)
  have at: "attached (snd (?rows ?r1))"
    using ends_in_rows[of "renderedRows T input" T "viewportCells input" "cols input"] a1
    by (simp add: ends_in_def)
  note eq = render_rows[of T r input, unfolded requireContext_attached[OF a], simplified]
  show "fst (render T r input) = None \<Longrightarrow> fst (?rows ?r1) = None"
  proof (cases "fst (?rows ?r1)")
    case None
    then show ?thesis by simp
  next
    case (Some e')
    assume "fst (render T r input) = None"
    then show ?thesis unfolding eq andThen_cases(2)[where f="?rows" and s="?r1", OF Some] .
  qed
  show "fst (render T r input) = Some e \<Longrightarrow> render T r input = ?rows ?r1"
  proof (cases "fst (?rows ?r1)")
    case None
    assume f: "fst (render T r input) = Some e"
    have "fst (render T r input) = None"
      unfolding eq andThen_cases(1)[where f="?rows" and s="?r1", OF None]
      using ends_in_tail[of input] at by (simp add: ends_in_def)
    then show ?thesis using f by simp
  next
    case (Some e')
    then show ?thesis unfolding eq andThen_cases(2)[where f="?rows" and s="?r1", OF Some] by simp
  qed
qed

lemma render_clears_row:
  assumes r: "ready r" and n: "fst (render T r input) = None"
    and y: "y \<in> set (renderedRows T input)"
  shows "FillRect (rgbaToCss (theme_background (input_theme input))) (Finite 1) 0
           (of_nat y * height (metrics r)) (of_nat (cols input) * width (metrics r))
           (height (metrics r))
         \<in> set (painted r (snd (render T r input)))"
proof -
  let ?line = "\<lambda>y r'. renderLine T r' (viewportCells input) y (cols input)"
  let ?rows = "forEach (renderedRows T input) ?line"
  let ?r1 = "withFrame r input"
  have a: "attached r" using r by (simp add: ready_def)
  have r1: "ready ?r1" using r by (simp add: withFrame_props)
  note eq = render_rows[of T r input, unfolded requireContext_attached[OF a], simplified]
  have rn: "fst (?rows ?r1) = None" by (rule render_outcomes(1)[OF a n])
  have st: "\<And>y. steps (?line y)" by (rule steps_renderLine)
  from forEach_visit[of ?line, OF st r1 rn y]
  obtain r' where r': "ready r'" "later ?r1 r'" "fst (?line y r') = None"
    "later (snd (?line y r')) (snd (?rows ?r1))" by blast
  have rr: "ready (snd (?rows ?r1))"
    using steps_forEach[of ?line "renderedRows T input", OF st] r1 rn by (simp add: steps_def)
  have fin: "later (snd (?rows ?r1)) (snd (render T r input))"
    unfolding eq andThen_cases(1)[where f="?rows" and s="?r1", OF rn]
    using steps_tail[of input] rr by (simp add: steps_def)
  note c = clearedRow_later[OF r'(1), of y "cols input"]
  have a': "attached r'" using r'(1) by (simp add: ready_def)
  have l2: "later (clearedRow r' y (cols input)) (snd (?line y r'))"
    unfolding renderLine_cleared[OF a']
    using steps_andThen[OF steps_pass1 steps_pass2, of T "viewportCells input" y "cols input"
        T "viewportCells input" y "cols input"] c(1)
    by (simp add: steps_def)
  have "FillRect (rgbaToCss (theme_background (theme r'))) (Finite 1) 0
           (of_nat y * height (metrics r')) (of_nat (cols input) * width (metrics r'))
           (height (metrics r'))
         \<in> set (painted r' (clearedRow r' y (cols input)))"
    by (simp add: c(3))
  then have "FillRect (rgbaToCss (theme_background (theme r'))) (Finite 1) 0
           (of_nat y * height (metrics r')) (of_nat (cols input) * width (metrics r'))
           (height (metrics r'))
         \<in> set (painted ?r1 (snd (render T r input)))"
    by (rule in_painted[OF r'(2) c(2) later_trans[OF l2 later_trans[OF r'(4) fin]]])
  then show ?thesis
    by (simp add: later_fields(1,2)[OF r'(2)] withFrame_props)
qed

text \<open>
  C1, as the code has it. \<^verbatim>\<open>render\<close> raises "not attached" on a renderer that is not
  attached, and paints nothing. Otherwise it stores the frame in the renderer and calls
  \<^verbatim>\<open>renderLine\<close> on the rows of a list, in that order, then paints the cursor and the
  scrollbar. The list is in ascending order without repetition. Its rows are all rows
  below \<open>rows\<close> when the frame is a full repaint; otherwise they are the rows whose flags
  have one of DIRTY, HAS_SELECTION, HAS_HYPERLINK set, together with the row above and the
  row below each of them, as far as these are below \<open>rows\<close>; with only row \<open>k\<close> flagged
  they are k-1, k and k+1, cut to the rows that exist. A call on an attached renderer
  returns normally when no cell holds a number above 0x10FFFF. A call that returns
  normally, from a context with alpha 1, has painted the clearing rectangle of every row
  of the list. A call on an attached renderer that raises has painted the rows of the
  list up to the one in which it raised, and is the outcome of \<^verbatim>\<open>renderLine\<close> on that row.
\<close>

theorem render_repaints_dilated_rows:
  "render T r input =
     (case requireContext r of
        Inl e \<Rightarrow> (Some e, r)
      | Inr _ \<Rightarrow>
          andThen
            (forEach (renderedRows T input)
               (\<lambda>y r'. renderLine T r' (viewportCells input) y (cols input)))
            (andThen
               (\<lambda>r'. if cursorVisible input
                      then renderCursor r' (cursorX input) (cursorY input) (cursorStyle input)
                      else (None, r'))
               (\<lambda>r'. if scrollbarOpacity input > 0 \<and> scrollbackLength input > 0
                      then renderScrollbar r' (viewportY input) (scrollbackLength input)
                             (rows input) (scrollbarOpacity input)
                      else (None, r')))
            (withFrame r input))
   \<and> sorted (renderedRows T input) \<and> distinct (renderedRows T input)
   \<and> set (renderedRows T input) =
       (if dirtyState input = FULL T then {0 ..< rows input}
        else {y. y < rows input
                 \<and> (\<exists>k < rows input. flagged (rowFlag input k) \<and> (y = k \<or> y + 1 = k \<or> y = k + 1))})
   \<and> (dirtyState input \<noteq> FULL T \<and> k < rows input
        \<and> (\<forall>j < rows input. flagged (rowFlag input j) \<longleftrightarrow> j = k) \<longrightarrow>
      set (renderedRows T input) = {k - 1, k, k + 1} \<inter> {0 ..< rows input})
   \<and> (\<not> attached r \<longrightarrow> render T r input = (Some NotAttached, r))
   \<and> (attached r \<and> list_all (\<lambda>cell. codepoint cell \<le> 1114111) (viewportCells input) \<longrightarrow>
        fst (render T r input) = None)
   \<and> (attached r \<and> globalAlpha (the_ctx r) = Finite 1 \<and> fst (render T r input) = None
        \<and> y \<in> set (renderedRows T input) \<longrightarrow>
        FillRect (rgbaToCss (theme_background (input_theme input))) (Finite 1) 0
          (of_nat y * height (metrics r)) (of_nat (cols input) * width (metrics r))
          (height (metrics r))
        \<in> set (painted r (snd (render T r input))))
   \<and> (attached r \<and> fst (render T r input) = Some e \<longrightarrow>
        (\<exists>ys z zs. renderedRows T input = ys @ z # zs
           \<and> fst (forEach ys (\<lambda>y r'. renderLine T r' (viewportCells input) y (cols input))
                   (withFrame r input)) = None
           \<and> render T r input =
               renderLine T
                 (snd (forEach ys (\<lambda>y r'. renderLine T r' (viewportCells input) y (cols input))
                         (withFrame r input)))
                 (viewportCells input) z (cols input)))"
proof (intro conjI impI)
  show "render T r input =
     (case requireContext r of
        Inl e \<Rightarrow> (Some e, r)
      | Inr _ \<Rightarrow>
          andThen
            (forEach (renderedRows T input)
               (\<lambda>y r'. renderLine T r' (viewportCells input) y (cols input)))
            (andThen
               (\<lambda>r'. if cursorVisible input
                      then renderCursor r' (cursorX input) (cursorY input) (cursorStyle input)
                      else (None, r'))
               (\<lambda>r'. if scrollbarOpacity input > 0 \<and> scrollbackLength input > 0
                      then renderScrollbar r' (viewportY input) (scrollbackLength input)
                             (rows input) (scrollbarOpacity input)
                      else (None, r')))
            (withFrame r input))"
    by (rule render_rows)
  show "sorted (renderedRows T input)" "distinct (renderedRows T input)"
    by (rule renderedRows_ordered)+
  show "set (renderedRows T input) =
       (if dirtyState input = FULL T then {0 ..< rows input}
        else {y. y < rows input
                 \<and> (\<exists>k < rows input. flagged (rowFlag input k) \<and> (y = k \<or> y + 1 = k \<or> y = k + 1))})"
    by (rule renderedRows_set)
next
  assume h: "dirtyState input \<noteq> FULL T \<and> k < rows input
        \<and> (\<forall>j < rows input. flagged (rowFlag input j) \<longleftrightarrow> j = k)"
  then have "set (renderedRows T input) =
      {y. y < rows input \<and> (y = k \<or> y + 1 = k \<or> y = k + 1)}"
    by (auto simp add: renderedRows_set)
  also have "\<dots> = {k - 1, k, k + 1} \<inter> {0 ..< rows input}"
    by auto
  finally show "set (renderedRows T input) = {k - 1, k, k + 1} \<inter> {0 ..< rows input}" .
next
  assume "\<not> attached r"
  then show "render T r input = (Some NotAttached, r)" by (rule render_unattached)
next
  assume "attached r \<and> list_all (\<lambda>cell. codepoint cell \<le> 1114111) (viewportCells input)"
  then show "fst (render T r input) = None" using valid_render by blast
next
  assume h: "attached r \<and> globalAlpha (the_ctx r) = Finite 1 \<and> fst (render T r input) = None
        \<and> y \<in> set (renderedRows T input)"
  then have "ready r" by (simp add: ready_def)
  then show "FillRect (rgbaToCss (theme_background (input_theme input))) (Finite 1) 0
          (of_nat y * height (metrics r)) (of_nat (cols input) * width (metrics r))
          (height (metrics r))
        \<in> set (painted r (snd (render T r input)))"
    using h render_clears_row by blast
next
  assume h: "attached r \<and> fst (render T r input) = Some e"
  let ?line = "\<lambda>y r'. renderLine T r' (viewportCells input) y (cols input)"
  have eq: "render T r input = forEach (renderedRows T input) ?line (withFrame r input)"
    using render_outcomes(2)[of r T input e] h by blast
  then have "fst (forEach (renderedRows T input) ?line (withFrame r input)) = Some e"
    using h by simp
  from forEach_raises[OF this]
  show "\<exists>ys z zs. renderedRows T input = ys @ z # zs
           \<and> fst (forEach ys ?line (withFrame r input)) = None
           \<and> render T r input =
               renderLine T (snd (forEach ys ?line (withFrame r input)))
                 (viewportCells input) z (cols input)"
    unfolding eq by blast
qed

lemma invalidInput_fields:
  "rows invalidInput = 4" "cols invalidInput = 3" "dirtyState invalidInput = FULL T0"
  "viewportCells invalidInput = plainCell\<lparr> codepoint := 1114112 \<rparr> # replicate 11 plainCell"
  "input_theme invalidInput = exampleTheme" "selectionRange invalidInput = None"
  "hoveredLink invalidInput = None" "getGraphemeString invalidInput = (\<lambda>row col. [])"
  by (simp_all add: invalidInput_def exampleInput_def T0_def)

lemma invalid_rows: "renderedRows T0 invalidInput = 0 # [1 ..< 4]"
  by (simp add: renderedRows_full invalidInput_fields upt_conv_Cons)

lemma invalid_line:
  "renderLine T0 (withFrame attachedRenderer invalidInput) (viewportCells invalidInput) 0 3 =
     (Some RangeError,
      (withFrame attachedRenderer invalidInput)
        \<lparr> ctx := Some (blankContext
            \<lparr> fillStyle := CssRgb (Finite 212) (Finite 212) (Finite 212),
              font := Font [] 15 (str ''monospace''),
              drawn := [FillRect (CssRgb (Finite 30) (Finite 30) (Finite 30)) (Finite 1) 0 0 30 20] \<rparr>) \<rparr>)"
proof -
  have bg: "rgbaToCss (rgba 30 30 30 1) = CssRgb (Finite 30) (Finite 30) (Finite 30)"
    by (rule rgbaToCss_opaque)
  show ?thesis
    by (simp add: renderLine_def requireContext_def withFrame_def attachedRenderer_def
        unattachedRenderer_def invalidInput_fields Let_def andThen_def renderLine_pass1_def
        renderLine_pass2_def upt_3 pass1_cell_def pass2_cell_def nth_cell_def
        renderCellBackground_def renderCellText_def isInSelection_def plainCell_def T0_def
        textStyle_def cellChar_def fromCodePoint_def fillRect_def exampleTheme_def bg
        blankContext_def rgbToCSS_def exampleCanvas_def)
qed

lemma invalid_frame:
  "render T0 attachedRenderer invalidInput =
     (Some RangeError,
      (withFrame attachedRenderer invalidInput)
        \<lparr> ctx := Some (blankContext
            \<lparr> fillStyle := CssRgb (Finite 212) (Finite 212) (Finite 212),
              font := Font [] 15 (str ''monospace''),
              drawn := [FillRect (CssRgb (Finite 30) (Finite 30) (Finite 30)) (Finite 1) 0 0 30 20] \<rparr>) \<rparr>)"
  unfolding render_rows requireContext_attached[OF attached_example] invalid_rows
  by (simp add: andThen_def invalidInput_fields(2) invalid_line)

text \<open>
  A full repaint of four rows whose first cell holds 0x110000. The call raises a range
  error in row 0, after clearing it, and rows 1 to 3 are not painted. The same frame on
  the renderer that is not attached raises "not attached" and paints nothing.
\<close>

theorem render_stops_at_raise_counterexample:
  "dirtyState invalidInput = FULL T0 \<and> rows invalidInput = 4
   \<and> attached attachedRenderer
   \<and> fst (render T0 attachedRenderer invalidInput) = Some RangeError
   \<and> painted attachedRenderer (snd (render T0 attachedRenderer invalidInput)) =
       [FillRect (CssRgb (Finite 30) (Finite 30) (Finite 30)) (Finite 1) 0 0 30 20]
   \<and> render T0 unattachedRenderer invalidInput = (Some NotAttached, unattachedRenderer)"
proof -
  have u: "\<not> attached unattachedRenderer"
    by (simp add: attached_def unattachedRenderer_def)
  have p: "painted attachedRenderer (snd (render T0 attachedRenderer invalidInput)) =
       [FillRect (CssRgb (Finite 30) (Finite 30) (Finite 30)) (Finite 1) 0 0 30 20]"
    unfolding invalid_frame by (simp add: painted_def the_ctx_example blankContext_def)
  show ?thesis
    using p attached_example render_unattached[OF u, of T0 invalidInput]
    by (simp add: invalidInput_fields invalid_frame)
qed

text \<open>
  The frame of four rows with row 1 dirty paints rows 0, 1 and 2 and returns normally; as
  a full repaint it paints all four rows; with the invalid cell it raises in the first
  row of its list.
\<close>

theorem render_repaints_dilated_rows_witness:
  "dirtyState exampleInput \<noteq> FULL T0 \<and> 1 < rows exampleInput
   \<and> map (\<lambda>j. flagged (rowFlag exampleInput j)) [0 ..< rows exampleInput]
       = [False, True, False, False]
   \<and> set (renderedRows T0 exampleInput) = {0, 1, 2}
   \<and> set (renderedRows T0 (exampleInput\<lparr> dirtyState := 2 \<rparr>)) = {0, 1, 2, 3}
   \<and> attached attachedRenderer \<and> globalAlpha (the_ctx attachedRenderer) = Finite 1
   \<and> list_all (\<lambda>cell. codepoint cell \<le> 1114111) (viewportCells exampleInput)
   \<and> fst (render T0 attachedRenderer exampleInput) = None
   \<and> FillRect (CssRgb (Finite 30) (Finite 30) (Finite 30)) (Finite 1) 0 40 30 20
       \<in> set (painted attachedRenderer (snd (render T0 attachedRenderer exampleInput)))
   \<and> \<not> attached unattachedRenderer
   \<and> render T0 unattachedRenderer exampleInput = (Some NotAttached, unattachedRenderer)
   \<and> fst (render T0 attachedRenderer invalidInput) = Some RangeError
   \<and> (\<exists>ys z zs. renderedRows T0 invalidInput = ys @ z # zs
         \<and> fst (forEach ys
                  (\<lambda>y r'. renderLine T0 r' (viewportCells invalidInput) y (cols invalidInput))
                  (withFrame attachedRenderer invalidInput)) = None
         \<and> render T0 attachedRenderer invalidInput =
             renderLine T0
               (snd (forEach ys
                       (\<lambda>y r'. renderLine T0 r' (viewportCells invalidInput) y (cols invalidInput))
                       (withFrame attachedRenderer invalidInput)))
               (viewportCells invalidInput) z (cols invalidInput))"
proof -
  have h: "dirtyState exampleInput \<noteq> FULL T0" "1 < rows exampleInput"
    by (simp_all add: exampleInput_def T0_def)
  have f: "dirtyState (exampleInput\<lparr> dirtyState := 2 \<rparr>) = FULL T0"
    "rows (exampleInput\<lparr> dirtyState := 2 \<rparr>) = 4"
    by (simp_all add: exampleInput_def T0_def)
  have "set (renderedRows T0 exampleInput) = {1 - 1, 1, 1 + 1} \<inter> {0 ..< rows exampleInput}"
    using render_repaints_dilated_rows [of T0 attachedRenderer exampleInput 1] h
      exampleInput_flags by blast
  then have a: "set (renderedRows T0 exampleInput) = {0, 1, 2}"
    by (simp add: ex_rows upto_4)
  have "set (renderedRows T0 (exampleInput\<lparr> dirtyState := 2 \<rparr>)) =
          {0 ..< rows (exampleInput\<lparr> dirtyState := 2 \<rparr>)}"
    using render_repaints_dilated_rows
      [of T0 attachedRenderer "exampleInput\<lparr> dirtyState := 2 \<rparr>" 0] f(1)
    by simp
  then have b: "set (renderedRows T0 (exampleInput\<lparr> dirtyState := 2 \<rparr>)) = {0, 1, 2, 3}"
    by (simp only: f(2) upto_4)
  have m: "map (\<lambda>j. flagged (rowFlag exampleInput j)) [0 ..< rows exampleInput]
       = [False, True, False, False]"
    by (simp add: ex_rows upt_conv_Cons rowFlag_def flagged_0)
  have g: "globalAlpha (the_ctx attachedRenderer) = Finite 1"
    by (simp add: the_ctx_example blankContext_def)
  have v: "list_all (\<lambda>cell. codepoint cell \<le> 1114111) (viewportCells exampleInput)"
    by (simp add: exampleInput_def list_all_iff plainCell_def)
  have n: "fst (render T0 attachedRenderer exampleInput) = None"
    using render_repaints_dilated_rows [of T0 attachedRenderer exampleInput] attached_example v
    by blast
  have y: "(2::nat) \<in> set (renderedRows T0 exampleInput)" using a by simp
  have ex: "input_theme exampleInput = exampleTheme" "cols exampleInput = 3"
    "metrics attachedRenderer = \<lparr> width = 10, height = 20, baseline = 16 \<rparr>"
    by (simp_all add: exampleInput_def attachedRenderer_def unattachedRenderer_def)
  have bg: "rgbaToCss (theme_background exampleTheme) = CssRgb (Finite 30) (Finite 30) (Finite 30)"
    by (simp add: exampleTheme_def rgbaToCss_opaque)
  have "FillRect (rgbaToCss (theme_background (input_theme exampleInput))) (Finite 1) 0
          (of_nat 2 * height (metrics attachedRenderer))
          (of_nat (cols exampleInput) * width (metrics attachedRenderer))
          (height (metrics attachedRenderer))
        \<in> set (painted attachedRenderer (snd (render T0 attachedRenderer exampleInput)))"
    using render_repaints_dilated_rows [of T0 attachedRenderer exampleInput _ 2]
      attached_example g n y by blast
  then have c: "FillRect (CssRgb (Finite 30) (Finite 30) (Finite 30)) (Finite 1) 0 40 30 20
       \<in> set (painted attachedRenderer (snd (render T0 attachedRenderer exampleInput)))"
    by (simp add: ex bg)
  have u: "\<not> attached unattachedRenderer"
    by (simp add: attached_def unattachedRenderer_def)
  have un: "render T0 unattachedRenderer exampleInput = (Some NotAttached, unattachedRenderer)"
    using render_repaints_dilated_rows [of T0 unattachedRenderer exampleInput] u by blast
  have e: "fst (render T0 attachedRenderer invalidInput) = Some RangeError"
    by (simp add: invalid_frame)
  have x: "\<exists>ys z zs. renderedRows T0 invalidInput = ys @ z # zs
         \<and> fst (forEach ys
                  (\<lambda>y r'. renderLine T0 r' (viewportCells invalidInput) y (cols invalidInput))
                  (withFrame attachedRenderer invalidInput)) = None
         \<and> render T0 attachedRenderer invalidInput =
             renderLine T0
               (snd (forEach ys
                       (\<lambda>y r'. renderLine T0 r' (viewportCells invalidInput) y (cols invalidInput))
                       (withFrame attachedRenderer invalidInput)))
               (viewportCells invalidInput) z (cols invalidInput)"
    using render_repaints_dilated_rows [of T0 attachedRenderer invalidInput _ _ RangeError]
      attached_example e by blast
  show ?thesis using h m a b attached_example g v n c u un e x by blast
qed

lemma painted_self [simp]: "painted r r = []"
  by (simp add: painted_def)

lemma painted_ctx:
  "drawn c = drawn (the_ctx r) @ ds \<Longrightarrow> painted r (r\<lparr> ctx := Some c \<rparr>) = ds"
  by (simp add: painted_def)

lemma decorations_strokes:
  "\<exists>ds. drawn (decorations T r c cell x y) = drawn c @ ds \<and> filter isFillRect ds = []"
  by (simp add: decorations_def Let_def strokeLine_props split: option.splits)

lemma quiet_renderCellText: "quiet (\<lambda>r. renderCellText T r cell x y)"
  unfolding quiet_def
proof (intro allI impI)
  fix r assume r: "ready r"
  then have a: "attached r" by (simp add: ready_def)
  let ?f = "renderCellText T r cell x y"
  show "filter isFillRect (painted r (snd ?f)) = []"
  proof (cases "flags cell AND INVISIBLE T = 0")
    case False
    then have "?f = (None, r)"
      unfolding renderCellText_def requireContext_attached[OF a] by simp
    then show ?thesis by simp
  next
    case True
    show ?thesis
    proof (cases "cellChar r cell x y")
      case (Inl e)
      have "?f = (Some e, r\<lparr> ctx := Some (textStyle T r (the_ctx r) cell x y) \<rparr>)"
        unfolding renderCellText_def requireContext_attached[OF a] by (simp add: True Inl Let_def)
      then show ?thesis
        by (simp add: painted_ctx[of _ r "[]"] textStyle_props(1))
    next
      case (Inr t)
      let ?c3 = "textStyle T r (the_ctx r) cell x y"
      let ?c4 = "fillText ?c3 t (of_nat x * width (metrics r))
                   (of_nat y * height (metrics r) + baseline (metrics r))"
      let ?c5 = "if flags cell AND FAINT T \<noteq> 0 then ?c4\<lparr> globalAlpha := Finite 1 \<rparr> else ?c4"
      have e: "?f = (None, r\<lparr> ctx := Some (decorations T r ?c5 cell x y) \<rparr>)"
        unfolding renderCellText_def requireContext_attached[OF a] by (simp add: True Inr Let_def)
      obtain ds where ds: "drawn (decorations T r ?c5 cell x y) = drawn ?c5 @ ds"
        "filter isFillRect ds = []"
        using decorations_strokes by blast
      have d5: "drawn ?c5 = drawn (the_ctx r) @ [FillText (fillStyle ?c3) (globalAlpha ?c3) (font ?c3) t
           (of_nat x * width (metrics r)) (of_nat y * height (metrics r) + baseline (metrics r))]"
        by (simp add: fillText_def textStyle_props(1))
      have "painted r (r\<lparr> ctx := Some (decorations T r ?c5 cell x y) \<rparr>) =
          [FillText (fillStyle ?c3) (globalAlpha ?c3) (font ?c3) t
           (of_nat x * width (metrics r)) (of_nat y * height (metrics r) + baseline (metrics r))] @ ds"
        by (rule painted_ctx) (simp only: ds(1) d5 append_assoc)
      then show ?thesis unfolding e using ds(2) by simp
    qed
  qed
qed

lemma quiet_pass2_cell: "quiet (pass2_cell T cells row n x)"
  using quiet_renderCellText[of T _ x row]
  by (auto simp: quiet_def pass2_cell_def split: option.splits)

lemma quiet_forEach:
  assumes st: "\<And>x. steps (f x)" and q: "\<And>x. quiet (f x)"
  shows "quiet (forEach xs f)"
  unfolding quiet_def
proof (intro allI impI)
  fix r assume "ready r"
  then show "filter isFillRect (painted r (snd (forEach xs f r))) = []"
  proof (induction xs arbitrary: r)
    case Nil
    then show ?case by simp
  next
    case (Cons x xs)
    have s: "later r (snd (f x r))" "fst (f x r) = None \<longrightarrow> ready (snd (f x r))"
      using st[of x] Cons.prems by (auto simp: steps_def)
    have q1: "filter isFillRect (painted r (snd (f x r))) = []"
      using q[of x] Cons.prems by (simp add: quiet_def)
    show ?case
    proof (cases "fst (f x r)")
      case None
      then have e: "forEach (x # xs) f r = forEach xs f (snd (f x r))"
        by (simp add: split_beta)
      have rd: "ready (snd (f x r))" using s None by simp
      have l: "later (snd (f x r)) (snd (forEach xs f (snd (f x r))))"
        using steps_forEach[of f xs, OF st] rd by (simp add: steps_def)
      show ?thesis
        unfolding e painted_trans[OF s(1) l] using q1 Cons.IH[OF rd] by simp
    next
      case (Some e)
      then have "forEach (x # xs) f r = f x r"
        by (cases "f x r") simp
      then show ?thesis using q1 by simp
    qed
  qed
qed

lemma quiet_pass2: "quiet (renderLine_pass2 T cells row n)"
  unfolding renderLine_pass2_def
  by (rule quiet_forEach) (simp_all add: steps_pass2_cell quiet_pass2_cell)

lemma renderLine_rects:
  assumes r: "ready r"
  shows "filter isFillRect (painted r (snd (renderLine T r cells row n))) =
           filter isFillRect
             (painted r (snd (renderLine_pass1 T cells row n (clearedRow r row n))))"
proof -
  have a: "attached r" using r by (simp add: ready_def)
  note c = clearedRow_later[OF r, of row n]
  let ?p1 = "renderLine_pass1 T cells row n (clearedRow r row n)"
  have n1: "fst ?p1 = None"
    using ends_in_pass1[of T cells row n] clearedRow_props(1)[OF a, of row n]
    by (simp add: ends_in_def)
  have s1: "later (clearedRow r row n) (snd ?p1)" "ready (snd ?p1)"
    using steps_pass1[of T cells row n] c(1) n1 by (simp_all add: steps_def)
  have e: "renderLine T r cells row n = renderLine_pass2 T cells row n (snd ?p1)"
    unfolding renderLine_cleared[OF a]
    by (rule andThen_cases(1)[where f="renderLine_pass1 T cells row n", OF n1])
  have l2: "later (snd ?p1) (snd (renderLine_pass2 T cells row n (snd ?p1)))"
    using steps_pass2[of T cells row n] s1(2) by (simp add: steps_def)
  have q: "filter isFillRect (painted (snd ?p1) (snd (renderLine_pass2 T cells row n (snd ?p1)))) = []"
    using quiet_pass2[of T cells row n] s1(2) by (simp add: quiet_def)
  show ?thesis
    unfolding e painted_trans[OF later_trans[OF c(2) s1(1)] l2] using q by simp
qed

lemma pass1_painted:
  assumes r: "ready r"
  shows "painted r (snd (renderLine_pass1 T cells row n (clearedRow r row n))) =
           FillRect (rgbaToCss (theme_background (theme r))) (Finite 1) 0
             (of_nat row * height (metrics r)) (of_nat n * width (metrics r)) (height (metrics r))
           # concat (map (cellBackground T r cells row n)
                       (filter (nonSpacer cells row n) [0 ..< n]))"
proof -
  have a: "attached r" and g: "globalAlpha (the_ctx r) = Finite 1"
    using r by (simp_all add: ready_def)
  note cp = clearedRow_props(1-3)[OF a, where row=row and n=n]
  note cp4 = clearedRow_props(4)[OF a, where row=row and n=n and T=T]
  have g': "globalAlpha (the_ctx (clearedRow r row n)) = Finite 1"
    using cp(3) g by simp
  note l = pass1_loop[OF cp(1) g', where cells=cells and row=row and n=n and T=T
      and xs="[0 ..< n]", folded renderLine_pass1_def]
  have "drawn (the_ctx (snd (renderLine_pass1 T cells row n (clearedRow r row n)))) =
        drawn (the_ctx r)
        @ [FillRect (rgbaToCss (theme_background (theme r))) (Finite 1) 0
             (of_nat row * height (metrics r)) (of_nat n * width (metrics r))
             (height (metrics r))]
        @ concat (map (cellBackground T r cells row n)
                    (filter (nonSpacer cells row n) [0 ..< n]))"
    using l cp(2) g by (simp add: cp4)
  then show ?thesis by (simp add: painted_def)
qed

lemma cellBackground_rects: "filter isFillRect (cellBackground T r cells row n x) = cellBackground T r cells row n x"
  by (simp add: cellBackground_def backgroundFill_def selectionOverlay_def split: prod.splits)

lemma concat_rects:
  "filter isFillRect (concat (map (cellBackground T r cells row n) xs)) =
     concat (map (cellBackground T r cells row n) xs)"
  by (induction xs) (simp_all add: cellBackground_rects)

text \<open>
  C3, as the code has it. No cell is in the selection when there is none. With a
  selection on one row, a cell is in it exactly when it is on that row between the two
  columns, ends included. With a selection whose first row is above its last, a cell is
  in it exactly when it is on the first row at or after the start column, on a row
  strictly between, or on the last row at or before the end column. The rectangles that
  \<^verbatim>\<open>renderLine\<close> paints on a row, from a context with alpha 1, are the clearing of the row
  and then, for each cell of the row that is present and is not a spacer, in order, the
  cell's background if it has one and the selection overlay exactly when the cell is in
  the selection. The overlay starts at the cell's column and is as wide as the cell, two
  columns for a wide glyph. A spacer has no rectangle of its own, in the selection or
  not.
\<close>

theorem isInSelection_row_span:
  "(currentSelectionRange r = None \<longrightarrow> \<not> isInSelection r x y)
   \<and> (currentSelectionRange r = Some sel \<and> startRow sel = endRow sel \<longrightarrow>
        (isInSelection r x y \<longleftrightarrow>
           int y = startRow sel \<and> startCol sel \<le> int x \<and> int x \<le> endCol sel))
   \<and> (currentSelectionRange r = Some sel \<and> startRow sel < endRow sel \<longrightarrow>
        (isInSelection r x y \<longleftrightarrow>
           (int y = startRow sel \<and> int x \<ge> startCol sel)
           \<or> (startRow sel < int y \<and> int y < endRow sel)
           \<or> (int y = endRow sel \<and> int x \<le> endCol sel)))
   \<and> (attached r \<and> globalAlpha (the_ctx r) = Finite 1 \<longrightarrow>
        filter isFillRect (painted r (snd (renderLine T r cells row n))) =
          FillRect (rgbaToCss (theme_background (theme r))) (Finite 1) 0
            (of_nat row * height (metrics r)) (of_nat n * width (metrics r)) (height (metrics r))
          # concat
              (map (\<lambda>x. backgroundFill T r (Finite 1) (cells ! (row * n + x)) x row
                         @ (if isInSelection r x row
                            then [FillRect (rgbaToCss (theme_selectionBackground (theme r)))
                                    (theme_selectionOpacity (theme r))
                                    (of_nat x * width (metrics r)) (of_nat row * height (metrics r))
                                    (width (metrics r) * of_nat (cell_width (cells ! (row * n + x))))
                                    (height (metrics r))]
                            else []))
                 (filter (nonSpacer cells row n) [0 ..< n])))"
proof -
  have "attached r \<and> globalAlpha (the_ctx r) = Finite 1 \<longrightarrow>
        filter isFillRect (painted r (snd (renderLine T r cells row n))) =
          FillRect (rgbaToCss (theme_background (theme r))) (Finite 1) 0
            (of_nat row * height (metrics r)) (of_nat n * width (metrics r)) (height (metrics r))
          # concat
              (map (\<lambda>x. backgroundFill T r (Finite 1) (cells ! (row * n + x)) x row
                         @ (if isInSelection r x row
                            then [FillRect (rgbaToCss (theme_selectionBackground (theme r)))
                                    (theme_selectionOpacity (theme r))
                                    (of_nat x * width (metrics r)) (of_nat row * height (metrics r))
                                    (width (metrics r) * of_nat (cell_width (cells ! (row * n + x))))
                                    (height (metrics r))]
                            else []))
                 (filter (nonSpacer cells row n) [0 ..< n]))"
  proof
    assume "attached r \<and> globalAlpha (the_ctx r) = Finite 1"
    then have rd: "ready r" by (simp add: ready_def)
    have c: "cellBackground T r cells row n =
        (\<lambda>x. backgroundFill T r (Finite 1) (cells ! (row * n + x)) x row
              @ (if isInSelection r x row
                 then [FillRect (rgbaToCss (theme_selectionBackground (theme r)))
                         (theme_selectionOpacity (theme r))
                         (of_nat x * width (metrics r)) (of_nat row * height (metrics r))
                         (width (metrics r) * of_nat (cell_width (cells ! (row * n + x))))
                         (height (metrics r))]
                 else []))"
      by (intro ext) (simp add: cellBackground_def selectionOverlay_def)
    show "filter isFillRect (painted r (snd (renderLine T r cells row n))) =
          FillRect (rgbaToCss (theme_background (theme r))) (Finite 1) 0
            (of_nat row * height (metrics r)) (of_nat n * width (metrics r)) (height (metrics r))
          # concat
              (map (\<lambda>x. backgroundFill T r (Finite 1) (cells ! (row * n + x)) x row
                         @ (if isInSelection r x row
                            then [FillRect (rgbaToCss (theme_selectionBackground (theme r)))
                                    (theme_selectionOpacity (theme r))
                                    (of_nat x * width (metrics r)) (of_nat row * height (metrics r))
                                    (width (metrics r) * of_nat (cell_width (cells ! (row * n + x))))
                                    (height (metrics r))]
                            else []))
                 (filter (nonSpacer cells row n) [0 ..< n]))"
      unfolding renderLine_rects[OF rd] pass1_painted[OF rd] c[symmetric]
      by (simp add: concat_rects)
  qed
  then show ?thesis
    by (auto simp add: isInSelection_def)
qed

lemma wideInput_fields:
  "rows (wideInput sel) = 1" "cols (wideInput sel) = 3" "dirtyState (wideInput sel) = 1"
  "viewportCells (wideInput sel) = wideRow" "rowFlags (wideInput sel) = [ROW_HAS_SELECTION]"
  "input_theme (wideInput sel) = exampleTheme" "selectionRange (wideInput sel) = Some sel"
  "hoveredLink (wideInput sel) = None" "getGraphemeString (wideInput sel) = (\<lambda>row col. [])"
  "cursorVisible (wideInput sel) = False" "scrollbackLength (wideInput sel) = 0"
  by (simp_all add: wideInput_def exampleInput_def)

lemma wide_rows: "renderedRows T0 (wideInput sel) = [0]"
  by (simp add: renderedRows_def rowsToRender_def buildRow_def wideInput_fields T0_def Let_def
      ROW_HAS_SELECTION_def ROW_DIRTY_def ROW_HAS_HYPERLINK_def)

lemma wide_frame:
  "render T0 attachedRenderer (wideInput sel) =
     renderLine T0 (withFrame attachedRenderer (wideInput sel)) wideRow 0 3"
  unfolding render_rows requireContext_attached[OF attached_example] wide_rows
  by (cases "renderLine T0 (withFrame attachedRenderer (wideInput sel)) wideRow 0 3";
      cases "fst (renderLine T0 (withFrame attachedRenderer (wideInput sel)) wideRow 0 3)")
     (simp_all add: andThen_def wideInput_fields)

lemmas line_eval = renderLine_def requireContext_def withFrame_def attachedRenderer_def
        unattachedRenderer_def wideInput_fields Let_def andThen_def renderLine_pass1_def
        renderLine_pass2_def upt_3 pass1_cell_def pass2_cell_def nth_cell_def
        renderCellBackground_def renderCellText_def isInSelection_def plainCell_def T0_def
        textStyle_def cellChar_def fromCodePoint_def fillRect_def fillText_def exampleTheme_def
        blankContext_def rgbToCSS_def exampleCanvas_def wideRow_def decorations_def
        rgbaToCss_opaque painted_def the_ctx_def

lemma wide_spacer_selected:
  "fst (renderLine T0
          (withFrame attachedRenderer
             (wideInput \<lparr> startCol = 2, startRow = 0, endCol = 2, endRow = 0 \<rparr>)) wideRow 0 3) = None"
  "painted attachedRenderer (snd (renderLine T0
          (withFrame attachedRenderer
             (wideInput \<lparr> startCol = 2, startRow = 0, endCol = 2, endRow = 0 \<rparr>)) wideRow 0 3)) =
     [FillRect (CssRgb (Finite 30) (Finite 30) (Finite 30)) (Finite 1) 0 0 30 20,
      FillText (CssRgb (Finite 212) (Finite 212) (Finite 212)) (Finite 1)
        (Font [] 15 (str ''monospace'')) [65] 0 16,
      FillText (CssRgb (Finite 212) (Finite 212) (Finite 212)) (Finite 1)
        (Font [] 15 (str ''monospace'')) [19990] 10 16]"
  "isInSelection (snd (renderLine T0
          (withFrame attachedRenderer
             (wideInput \<lparr> startCol = 2, startRow = 0, endCol = 2, endRow = 0 \<rparr>)) wideRow 0 3)) 2 0"
  by (simp_all add: line_eval)

lemma wide_glyph_selected:
  "fst (renderLine T0
          (withFrame attachedRenderer
             (wideInput \<lparr> startCol = 1, startRow = 0, endCol = 1, endRow = 0 \<rparr>)) wideRow 0 3) = None"
  "painted attachedRenderer (snd (renderLine T0
          (withFrame attachedRenderer
             (wideInput \<lparr> startCol = 1, startRow = 0, endCol = 1, endRow = 0 \<rparr>)) wideRow 0 3)) =
     [FillRect (CssRgb (Finite 30) (Finite 30) (Finite 30)) (Finite 1) 0 0 30 20,
      FillRect (CssRgb (Finite 212) (Finite 212) (Finite 212)) (Finite (4 / 10)) 10 0 20 20,
      FillText (CssRgb (Finite 212) (Finite 212) (Finite 212)) (Finite 1)
        (Font [] 15 (str ''monospace'')) [65] 0 16,
      FillText (CssRgb (Finite 30) (Finite 30) (Finite 30)) (Finite 1)
        (Font [] 15 (str ''monospace'')) [19990] 10 16]"
  "\<not> isInSelection (snd (renderLine T0
          (withFrame attachedRenderer
             (wideInput \<lparr> startCol = 1, startRow = 0, endCol = 1, endRow = 0 \<rparr>)) wideRow 0 3)) 2 0"
  by (simp_all add: line_eval)

text \<open>
  The row with a wide glyph in column 1 and its spacer in column 2, rendered as a frame.
  With only column 2 selected the spacer is in the selection, and no overlay is painted.
  With only column 1 selected the overlay is two columns wide and covers column 2, which
  is not in the selection.
\<close>

theorem selection_overlay_skips_spacer_counterexample:
  "cell_width (wideRow ! 1) = 2 \<and> cell_width (wideRow ! 2) = 0
   \<and> fst (render T0 attachedRenderer
             (wideInput \<lparr> startCol = 2, startRow = 0, endCol = 2, endRow = 0 \<rparr>)) = None
   \<and> isInSelection (snd (render T0 attachedRenderer
             (wideInput \<lparr> startCol = 2, startRow = 0, endCol = 2, endRow = 0 \<rparr>))) 2 0
   \<and> painted attachedRenderer (snd (render T0 attachedRenderer
             (wideInput \<lparr> startCol = 2, startRow = 0, endCol = 2, endRow = 0 \<rparr>))) =
       [FillRect (CssRgb (Finite 30) (Finite 30) (Finite 30)) (Finite 1) 0 0 30 20,
        FillText (CssRgb (Finite 212) (Finite 212) (Finite 212)) (Finite 1)
          (Font [] 15 (str ''monospace'')) [65] 0 16,
        FillText (CssRgb (Finite 212) (Finite 212) (Finite 212)) (Finite 1)
          (Font [] 15 (str ''monospace'')) [19990] 10 16]
   \<and> fst (render T0 attachedRenderer
             (wideInput \<lparr> startCol = 1, startRow = 0, endCol = 1, endRow = 0 \<rparr>)) = None
   \<and> \<not> isInSelection (snd (render T0 attachedRenderer
             (wideInput \<lparr> startCol = 1, startRow = 0, endCol = 1, endRow = 0 \<rparr>))) 2 0
   \<and> painted attachedRenderer (snd (render T0 attachedRenderer
             (wideInput \<lparr> startCol = 1, startRow = 0, endCol = 1, endRow = 0 \<rparr>))) =
       [FillRect (CssRgb (Finite 30) (Finite 30) (Finite 30)) (Finite 1) 0 0 30 20,
        FillRect (CssRgb (Finite 212) (Finite 212) (Finite 212)) (Finite (4 / 10)) 10 0 20 20,
        FillText (CssRgb (Finite 212) (Finite 212) (Finite 212)) (Finite 1)
          (Font [] 15 (str ''monospace'')) [65] 0 16,
        FillText (CssRgb (Finite 30) (Finite 30) (Finite 30)) (Finite 1)
          (Font [] 15 (str ''monospace'')) [19990] 10 16]"
proof -
  have w: "cell_width (wideRow ! 1) = 2" "cell_width (wideRow ! 2) = 0"
    by (simp_all add: wideRow_def)
  show ?thesis
    unfolding wide_frame using w wide_spacer_selected wide_glyph_selected by blast
qed

text \<open>
  The two selections of the examples, on a grid of the attached renderer, and the
  rectangles of the row with the wide glyph when columns 1 to 5 of it are selected.
\<close>

theorem isInSelection_row_span_witness:
  "isInSelection (attachedRenderer\<lparr> currentSelectionRange :=
       Some \<lparr> startCol = 2, startRow = 1, endCol = 5, endRow = 1 \<rparr> \<rparr>) 2 1
   \<and> \<not> isInSelection (attachedRenderer\<lparr> currentSelectionRange :=
       Some \<lparr> startCol = 2, startRow = 1, endCol = 5, endRow = 1 \<rparr> \<rparr>) 6 1
   \<and> \<not> isInSelection (attachedRenderer\<lparr> currentSelectionRange :=
       Some \<lparr> startCol = 2, startRow = 1, endCol = 5, endRow = 1 \<rparr> \<rparr>) 3 0
   \<and> isInSelection (attachedRenderer\<lparr> currentSelectionRange :=
       Some \<lparr> startCol = 5, startRow = 0, endCol = 2, endRow = 2 \<rparr> \<rparr>) 7 0
   \<and> \<not> isInSelection (attachedRenderer\<lparr> currentSelectionRange :=
       Some \<lparr> startCol = 5, startRow = 0, endCol = 2, endRow = 2 \<rparr> \<rparr>) 4 0
   \<and> isInSelection (attachedRenderer\<lparr> currentSelectionRange :=
       Some \<lparr> startCol = 5, startRow = 0, endCol = 2, endRow = 2 \<rparr> \<rparr>) 9 1
   \<and> \<not> isInSelection (attachedRenderer\<lparr> currentSelectionRange :=
       Some \<lparr> startCol = 5, startRow = 0, endCol = 2, endRow = 2 \<rparr> \<rparr>) 3 2
   \<and> \<not> isInSelection attachedRenderer 0 0
   \<and> attached (attachedRenderer\<lparr> currentSelectionRange :=
       Some \<lparr> startCol = 1, startRow = 0, endCol = 5, endRow = 0 \<rparr> \<rparr>)
   \<and> globalAlpha (the_ctx (attachedRenderer\<lparr> currentSelectionRange :=
       Some \<lparr> startCol = 1, startRow = 0, endCol = 5, endRow = 0 \<rparr> \<rparr>)) = Finite 1
   \<and> filter isFillRect
         (painted
            (attachedRenderer\<lparr> currentSelectionRange :=
               Some \<lparr> startCol = 1, startRow = 0, endCol = 5, endRow = 0 \<rparr> \<rparr>)
            (snd (renderLine T0
                    (attachedRenderer\<lparr> currentSelectionRange :=
                       Some \<lparr> startCol = 1, startRow = 0, endCol = 5, endRow = 0 \<rparr> \<rparr>)
                    wideRow 0 3)))
       = [FillRect (CssRgb (Finite 30) (Finite 30) (Finite 30)) (Finite 1) 0 0 30 20,
          FillRect (CssRgb (Finite 212) (Finite 212) (Finite 212)) (Finite (4 / 10)) 10 0 20 20]"
proof -
  let ?one = "\<lparr> startCol = 2, startRow = 1, endCol = 5, endRow = 1 \<rparr>"
  let ?many = "\<lparr> startCol = 5, startRow = 0, endCol = 2, endRow = 2 \<rparr>"
  let ?top = "\<lparr> startCol = 1, startRow = 0, endCol = 5, endRow = 0 \<rparr>"
  let ?r1 = "attachedRenderer\<lparr> currentSelectionRange := Some ?one \<rparr>"
  let ?r2 = "attachedRenderer\<lparr> currentSelectionRange := Some ?many \<rparr>"
  let ?r3 = "attachedRenderer\<lparr> currentSelectionRange := Some ?top \<rparr>"
  have n: "currentSelectionRange attachedRenderer = None"
    by (simp add: attachedRenderer_def unattachedRenderer_def)
  have a: "attached ?r3" "globalAlpha (the_ctx ?r3) = Finite 1"
    by (simp_all add: attached_def attachedRenderer_def the_ctx_def blankContext_def)
  have f: "metrics ?r3 = \<lparr> width = 10, height = 20, baseline = 16 \<rparr>"
    "theme ?r3 = exampleTheme"
    by (simp_all add: attachedRenderer_def unattachedRenderer_def)
  have ns: "filter (nonSpacer wideRow 0 3) [0 ..< 3] = [0, Suc 0]"
    by (simp add: upt_3 nonSpacer_def nth_cell_def wideRow_def plainCell_def)
  have b: "backgroundFill T0 ?r3 al (wideRow ! cx) cx cy = []" if "cx < 2" for al cx cy
    using that
    by (cases cx) (simp_all add: backgroundFill_def backgroundComponents_def plainCell_def
        T0_def wideRow_def)
  have s: "\<not> isInSelection ?r3 0 0" "isInSelection ?r3 (Suc 0) 0"
    by (simp_all add: isInSelection_def)
  have o: "rgbaToCss (theme_selectionBackground exampleTheme) =
      CssRgb (Finite 212) (Finite 212) (Finite 212)"
    "rgbaToCss (theme_background exampleTheme) = CssRgb (Finite 30) (Finite 30) (Finite 30)"
    "theme_selectionOpacity exampleTheme = Finite (4 / 10)"
    by (simp_all add: exampleTheme_def rgbaToCss_opaque)
  have w: "cell_width (wideRow ! Suc 0) = 2" by (simp add: wideRow_def)
  have "filter isFillRect (painted ?r3 (snd (renderLine T0 ?r3 wideRow 0 3))) =
      FillRect (rgbaToCss (theme_background (theme ?r3))) (Finite 1) 0
        (of_nat 0 * height (metrics ?r3)) (of_nat 3 * width (metrics ?r3)) (height (metrics ?r3))
      # concat
          (map (\<lambda>x. backgroundFill T0 ?r3 (Finite 1) (wideRow ! (0 * 3 + x)) x 0
                     @ (if isInSelection ?r3 x 0
                        then [FillRect (rgbaToCss (theme_selectionBackground (theme ?r3)))
                                (theme_selectionOpacity (theme ?r3))
                                (of_nat x * width (metrics ?r3)) (of_nat 0 * height (metrics ?r3))
                                (width (metrics ?r3) * of_nat (cell_width (wideRow ! (0 * 3 + x))))
                                (height (metrics ?r3))]
                        else []))
             (filter (nonSpacer wideRow 0 3) [0 ..< 3]))"
    using isInSelection_row_span [of ?r3 0 0 ?top T0 wideRow 0 3] a by blast
  then have d: "filter isFillRect (painted ?r3 (snd (renderLine T0 ?r3 wideRow 0 3))) =
      [FillRect (CssRgb (Finite 30) (Finite 30) (Finite 30)) (Finite 1) 0 0 30 20,
       FillRect (CssRgb (Finite 212) (Finite 212) (Finite 212)) (Finite (4 / 10)) 10 0 20 20]"
    unfolding ns f o by (simp add: b s w)
  have geo: "(currentSelectionRange r = None \<longrightarrow> \<not> isInSelection r x y)
     \<and> (currentSelectionRange r = Some sel \<and> startRow sel = endRow sel \<longrightarrow>
        (isInSelection r x y \<longleftrightarrow>
           int y = startRow sel \<and> startCol sel \<le> int x \<and> int x \<le> endCol sel))
     \<and> (currentSelectionRange r = Some sel \<and> startRow sel < endRow sel \<longrightarrow>
        (isInSelection r x y \<longleftrightarrow>
           (int y = startRow sel \<and> int x \<ge> startCol sel)
           \<or> (startRow sel < int y \<and> int y < endRow sel)
           \<or> (int y = endRow sel \<and> int x \<le> endCol sel)))" for r x y sel
    using isInSelection_row_span [of r x y sel T0 wideRow 0 3] by blast
  have g: "isInSelection ?r1 2 1 \<and> \<not> isInSelection ?r1 6 1 \<and> \<not> isInSelection ?r1 3 0
     \<and> isInSelection ?r2 7 0 \<and> \<not> isInSelection ?r2 4 0 \<and> isInSelection ?r2 9 1
     \<and> \<not> isInSelection ?r2 3 2 \<and> \<not> isInSelection attachedRenderer 0 0"
    using geo [of ?r1 2 1 ?one] geo [of ?r1 6 1 ?one]
      geo [of ?r1 3 0 ?one] geo [of ?r2 7 0 ?many]
      geo [of ?r2 4 0 ?many] geo [of ?r2 9 1 ?many]
      geo [of ?r2 3 2 ?many] geo [of attachedRenderer 0 0] n
    by simp
  show ?thesis
    using g a d by blast
qed

lemma later_cellChar: "later r r' \<Longrightarrow> cellChar r' = cellChar r"
  by (intro ext) (simp add: cellChar_def later_fields(6))

lemma later_glyph: "later r r' \<Longrightarrow> glyph T r' = glyph T r"
  by (intro ext) (simp add: glyph_def later_fields)

lemma renderCellText_glyph:
  assumes r: "ready r"
    and v: "flags cell AND INVISIBLE T = 0" and t: "cellChar r cell x y = Inr t"
    and f: "theme_selectionForeground (theme r) = Some selFg" and s: "isInSelection r x y"
  shows "\<exists>ds. painted r (snd (renderCellText T r cell x y)) =
           glyph T r (rgbaToCss selFg) cell t x y # ds"
proof -
  have a: "attached r" and g: "globalAlpha (the_ctx r) = Finite 1"
    using r by (simp_all add: ready_def)
  from renderCellText_painted(2)[OF a v t]
  obtain ds where "drawn (the_ctx (snd (renderCellText T r cell x y))) =
           drawn (the_ctx r)
           @ [FillText (fillStyle (textStyle T r (the_ctx r) cell x y))
                (globalAlpha (textStyle T r (the_ctx r) cell x y))
                (font (textStyle T r (the_ctx r) cell x y)) t
                (of_nat x * width (metrics r))
                (of_nat y * height (metrics r) + baseline (metrics r))] @ ds" by blast
  then have "painted r (snd (renderCellText T r cell x y)) =
      glyph T r (rgbaToCss selFg) cell t x y # ds"
    by (simp add: painted_def glyph_def textStyle_props(2,3) textStyle_selected[OF f s] g)
  then show ?thesis by blast
qed

lemma renderLine_glyph:
  assumes r: "ready r" and n: "fst (renderLine T r cells y n) = None"
    and x: "x < n" and c: "nth_cell cells (y * n + x) = Some cell" and w: "cell_width cell \<noteq> 0"
    and v: "flags cell AND INVISIBLE T = 0" and t: "cellChar r cell x y = Inr t"
    and f: "theme_selectionForeground (theme r) = Some selFg" and s: "isInSelection r x y"
  shows "glyph T r (rgbaToCss selFg) cell t x y \<in> set (painted r (snd (renderLine T r cells y n)))"
proof -
  have a: "attached r" using r by (simp add: ready_def)
  note cl = clearedRow_later[OF r, of y n]
  let ?p1 = "renderLine_pass1 T cells y n (clearedRow r y n)"
  have n1: "fst ?p1 = None"
    using ends_in_pass1[of T cells y n] clearedRow_props(1)[OF a, of y n]
    by (simp add: ends_in_def)
  have s1: "later (clearedRow r y n) (snd ?p1)" "ready (snd ?p1)"
    using steps_pass1[of T cells y n] cl(1) n1 by (simp_all add: steps_def)
  have e: "renderLine T r cells y n = renderLine_pass2 T cells y n (snd ?p1)"
    unfolding renderLine_cleared[OF a]
    by (rule andThen_cases(1)[where f="renderLine_pass1 T cells y n", OF n1])
  have n2: "fst (forEach [0 ..< n] (pass2_cell T cells y n) (snd ?p1)) = None"
    using n unfolding e renderLine_pass2_def .
  have xin: "x \<in> set [0 ..< n]" using x by simp
  from forEach_visit[of "pass2_cell T cells y n", OF steps_pass2_cell s1(2) n2 xin]
  obtain r' where r': "ready r'" "later (snd ?p1) r'" "fst (pass2_cell T cells y n x r') = None"
    "later (snd (pass2_cell T cells y n x r'))
       (snd (forEach [0 ..< n] (pass2_cell T cells y n) (snd ?p1)))" by blast
  have l: "later r r'" using later_trans[OF cl(2) later_trans[OF s1(1) r'(2)]] .
  have pc: "pass2_cell T cells y n x r' = renderCellText T r' cell x y"
    using c w by (simp add: pass2_cell_def)
  from renderCellText_glyph[OF r'(1) v, of x y t selFg]
  obtain ds where ds: "painted r' (snd (renderCellText T r' cell x y)) =
      glyph T r' (rgbaToCss selFg) cell t x y # ds"
    using t f s by (auto simp add: later_cellChar[OF l] later_fields[OF l])
  have lc: "later r' (snd (renderCellText T r' cell x y))"
    using steps_renderCellText[of T cell x y] r'(1) by (simp add: steps_def)
  have "glyph T r (rgbaToCss selFg) cell t x y \<in> set (painted r' (snd (renderCellText T r' cell x y)))"
    unfolding ds by (simp add: later_glyph[OF l])
  then show ?thesis
    unfolding e renderLine_pass2_def
    using in_painted[OF l lc r'(4)[unfolded pc]] by blast
qed

lemma render_glyph:
  assumes r: "ready r" and n: "fst (render T r input) = None"
    and y: "y \<in> set (renderedRows T input)" and x: "x < cols input"
    and c: "nth_cell (viewportCells input) (y * cols input + x) = Some cell"
    and w: "cell_width cell \<noteq> 0"
    and v: "flags cell AND INVISIBLE T = 0" and t: "cellChar (withFrame r input) cell x y = Inr t"
    and f: "theme_selectionForeground (input_theme input) = Some selFg"
    and s: "isInSelection (withFrame r input) x y"
  shows "glyph T r (rgbaToCss selFg) cell t x y \<in> set (painted r (snd (render T r input)))"
proof -
  let ?line = "\<lambda>y r'. renderLine T r' (viewportCells input) y (cols input)"
  let ?rows = "forEach (renderedRows T input) ?line"
  let ?r1 = "withFrame r input"
  have a: "attached r" using r by (simp add: ready_def)
  have r1: "ready ?r1" using r by (simp add: withFrame_props)
  note eq = render_rows[of T r input, unfolded requireContext_attached[OF a], simplified]
  have rn: "fst (?rows ?r1) = None" by (rule render_outcomes(1)[OF a n])
  have st: "\<And>y. steps (?line y)" by (rule steps_renderLine)
  from forEach_visit[of ?line, OF st r1 rn y]
  obtain r' where r': "ready r'" "later ?r1 r'" "fst (?line y r') = None"
    "later (snd (?line y r')) (snd (?rows ?r1))" by blast
  have rr: "ready (snd (?rows ?r1))"
    using steps_forEach[of ?line "renderedRows T input", OF st] r1 rn by (simp add: steps_def)
  have fin: "later (snd (?rows ?r1)) (snd (render T r input))"
    unfolding eq andThen_cases(1)[where f="?rows" and s="?r1", OF rn]
    using steps_tail[of input] rr by (simp add: steps_def)
  have ll: "later r' (snd (?line y r'))"
    using st[of y] r'(1) by (simp add: steps_def)
  have t': "cellChar r' cell x y = Inr t"
    using t by (simp add: later_cellChar[OF r'(2)])
  have f': "theme_selectionForeground (theme r') = Some selFg"
    using f by (simp add: later_fields(1)[OF r'(2)] withFrame_props)
  have s': "isInSelection r' x y"
    using s by (simp add: later_fields(10)[OF r'(2)])
  have "glyph T r' (rgbaToCss selFg) cell t x y \<in> set (painted r' (snd (?line y r')))"
    by (rule renderLine_glyph[OF r'(1) r'(3) x c w v t' f' s'])
  then have "glyph T r' (rgbaToCss selFg) cell t x y \<in> set (painted ?r1 (snd (render T r input)))"
    by (rule in_painted[OF r'(2) ll later_trans[OF r'(4) fin]])
  then show ?thesis
    by (simp add: later_glyph[OF r'(2)] withFrame_props glyph_def)
qed

text \<open>
  C10. When the override omits \<^verbatim>\<open>selectionForeground\<close>, or there is no override, the
  resolved selection foreground is not \<^verbatim>\<open>null\<close>: it is the colour of \<^verbatim>\<open>#1e1e1e\<close>,
  (30, 30, 30) with alpha 1. Under that theme \<^verbatim>\<open>renderCellText\<close> paints the text of a
  selected visible cell in \<^verbatim>\<open>rgb(30, 30, 30)\<close> before anything else, whatever the cell's
  own foreground. So does a \<^verbatim>\<open>render\<close> call that returns normally on a frame with that
  theme: the text of every selected visible cell, spacers apart, of every row it paints
  is in what the call painted, in \<^verbatim>\<open>rgb(30, 30, 30)\<close>.
\<close>

theorem resolveTheme_default_selectionForeground:
  assumes "th = None \<or> (\<exists>t. th = Some t \<and> selectionForeground t = Absent)"
  shows "theme_selectionForeground (resolveTheme th) = Some (rgba 30 30 30 1)
    \<and> (attached r \<and> globalAlpha (the_ctx r) = Finite 1 \<and> theme r = resolveTheme th
         \<and> isInSelection r x y \<and> flags cell AND INVISIBLE T = 0
         \<and> cellChar r cell x y = Inr t \<longrightarrow>
       (\<exists>ds. painted r (snd (renderCellText T r cell x y)) =
          glyph T r (CssRgb (Finite 30) (Finite 30) (Finite 30)) cell t x y # ds))
    \<and> (attached r \<and> globalAlpha (the_ctx r) = Finite 1 \<and> input_theme input = resolveTheme th
         \<and> fst (render T r input) = None
         \<and> y \<in> set (renderedRows T input) \<and> x < cols input
         \<and> nth_cell (viewportCells input) (y * cols input + x) = Some cell
         \<and> cell_width cell \<noteq> 0 \<and> flags cell AND INVISIBLE T = 0
         \<and> isInSelection (withFrame r input) x y
         \<and> cellChar (withFrame r input) cell x y = Inr t \<longrightarrow>
       glyph T r (CssRgb (Finite 30) (Finite 30) (Finite 30)) cell t x y
         \<in> set (painted r (snd (render T r input))))"
proof (intro conjI impI)
  show s: "theme_selectionForeground (resolveTheme th) = Some (rgba 30 30 30 1)"
    using assms selectionForeground_cases [of th] by (auto simp: supplied_def)
  {
    assume h: "attached r \<and> globalAlpha (the_ctx r) = Finite 1 \<and> theme r = resolveTheme th
         \<and> isInSelection r x y \<and> flags cell AND INVISIBLE T = 0
         \<and> cellChar r cell x y = Inr t"
    then have rd: "ready r" by (simp add: ready_def)
    have f: "theme_selectionForeground (theme r) = Some (rgba 30 30 30 1)"
      using h s by simp
    show "\<exists>ds. painted r (snd (renderCellText T r cell x y)) =
          glyph T r (CssRgb (Finite 30) (Finite 30) (Finite 30)) cell t x y # ds"
      using renderCellText_glyph[OF rd _ _ f, of cell T x y t] h
      by (simp add: rgbaToCss_opaque)
  }
  {
    assume h: "attached r \<and> globalAlpha (the_ctx r) = Finite 1 \<and> input_theme input = resolveTheme th
         \<and> fst (render T r input) = None
         \<and> y \<in> set (renderedRows T input) \<and> x < cols input
         \<and> nth_cell (viewportCells input) (y * cols input + x) = Some cell
         \<and> cell_width cell \<noteq> 0 \<and> flags cell AND INVISIBLE T = 0
         \<and> isInSelection (withFrame r input) x y
         \<and> cellChar (withFrame r input) cell x y = Inr t"
    then have rd: "ready r" by (simp add: ready_def)
    have f: "theme_selectionForeground (input_theme input) = Some (rgba 30 30 30 1)"
      using h s by simp
    have "glyph T r (rgbaToCss (rgba 30 30 30 1)) cell t x y
         \<in> set (painted r (snd (render T r input)))"
      using render_glyph[OF rd _ _ _ _ _ _ _ f, of T y x cell t] h by simp
    then show "glyph T r (CssRgb (Finite 30) (Finite 30) (Finite 30)) cell t x y
         \<in> set (painted r (snd (render T r input)))"
      by (simp add: rgbaToCss_opaque)
  }
qed

lemma defaultThemeInput_fields:
  "rows defaultThemeInput = 1" "cols defaultThemeInput = 3" "dirtyState defaultThemeInput = 1"
  "viewportCells defaultThemeInput = wideRow"
  "rowFlags defaultThemeInput = [ROW_HAS_SELECTION]"
  "input_theme defaultThemeInput = resolveTheme None"
  "selectionRange defaultThemeInput = Some \<lparr> startCol = 1, startRow = 0, endCol = 1, endRow = 0 \<rparr>"
  "getGraphemeString defaultThemeInput = (\<lambda>row col. [])"
  by (simp_all add: defaultThemeInput_def wideInput_fields)

lemma default_rows: "renderedRows T0 defaultThemeInput = [0]"
  by (simp add: renderedRows_def rowsToRender_def buildRow_def defaultThemeInput_fields T0_def
      Let_def ROW_HAS_SELECTION_def ROW_DIRTY_def ROW_HAS_HYPERLINK_def)

text \<open>
  The frame with the wide glyph selected, under the theme resolved from no override: its
  text is painted in \<^verbatim>\<open>rgb(30, 30, 30)\<close>, where the cell's own foreground is 212, 212, 212.
\<close>

theorem resolveTheme_default_selectionForeground_witness:
  "theme_selectionForeground (resolveTheme None) = Some (rgba 30 30 30 1)
   \<and> selectionForeground (emptyTheme\<lparr> foreground := Value (str ''#fff'') \<rparr>) = Absent
   \<and> theme_selectionForeground
        (resolveTheme (Some (emptyTheme\<lparr> foreground := Value (str ''#fff'') \<rparr>)))
       = Some (rgba 30 30 30 1)
   \<and> attached attachedRenderer \<and> globalAlpha (the_ctx attachedRenderer) = Finite 1
   \<and> input_theme defaultThemeInput = resolveTheme None
   \<and> fst (render T0 attachedRenderer defaultThemeInput) = None
   \<and> renderedRows T0 defaultThemeInput = [0]
   \<and> nth_cell (viewportCells defaultThemeInput) 1 = Some (plainCell\<lparr> codepoint := 19990, cell_width := 2 \<rparr>)
   \<and> fg_r (plainCell\<lparr> codepoint := 19990, cell_width := 2 \<rparr>) = 212 \<and> cell_width (plainCell\<lparr> codepoint := 19990, cell_width := 2 \<rparr>) = 2 \<and> flags (plainCell\<lparr> codepoint := 19990, cell_width := 2 \<rparr>) = 0
   \<and> isInSelection (withFrame attachedRenderer defaultThemeInput) 1 0
   \<and> cellChar (withFrame attachedRenderer defaultThemeInput) (plainCell\<lparr> codepoint := 19990, cell_width := 2 \<rparr>) 1 0 = Inr [19990]
   \<and> FillText (CssRgb (Finite 30) (Finite 30) (Finite 30)) (Finite 1)
        (Font [] 15 (str ''monospace'')) [19990] 10 16
       \<in> set (painted attachedRenderer (snd (render T0 attachedRenderer defaultThemeInput)))
   \<and> (\<exists>ds. painted (withFrame attachedRenderer defaultThemeInput)
              (snd (renderCellText T0 (withFrame attachedRenderer defaultThemeInput)
                      (plainCell\<lparr> codepoint := 19990, cell_width := 2 \<rparr>) 1 0)) =
            FillText (CssRgb (Finite 30) (Finite 30) (Finite 30)) (Finite 1)
              (Font [] 15 (str ''monospace'')) [19990] 10 16 # ds)"
proof -
  let ?in = defaultThemeInput
  let ?r1 = "withFrame attachedRenderer ?in"
  let ?cell = "plainCell\<lparr> codepoint := 19990, cell_width := 2 \<rparr>"
  have ab: "selectionForeground (emptyTheme\<lparr> foreground := Value (str ''#fff'') \<rparr>) = Absent"
    by (simp add: emptyTheme_def)
  have g: "globalAlpha (the_ctx attachedRenderer) = Finite 1"
    by (simp add: the_ctx_example blankContext_def)
  have v: "list_all (\<lambda>cell. codepoint cell \<le> 1114111) (viewportCells ?in)"
    by (simp add: defaultThemeInput_fields wideRow_def plainCell_def)
  have n: "fst (render T0 attachedRenderer ?in) = None"
    by (rule valid_render[OF attached_example v])
  have c: "nth_cell (viewportCells ?in) 1 = Some ?cell"
    "fg_r ?cell = 212" "cell_width ?cell = 2" "flags ?cell = 0"
    by (simp_all add: defaultThemeInput_fields nth_cell_def wideRow_def plainCell_def)
  have s: "isInSelection ?r1 1 0"
    by (simp add: isInSelection_def withFrame_props defaultThemeInput_fields)
  have t: "cellChar ?r1 ?cell 1 0 = Inr [19990]"
    by (simp add: cellChar_def withFrame_props wideRow_def plainCell_def fromCodePoint_def)
  have a1: "attached ?r1" "globalAlpha (the_ctx ?r1) = Finite 1" "theme ?r1 = resolveTheme None"
    using attached_example g by (simp_all add: withFrame_props defaultThemeInput_fields)
  have m: "metrics attachedRenderer = \<lparr> width = 10, height = 20, baseline = 16 \<rparr>"
    "fontSize attachedRenderer = 15" "fontFamily attachedRenderer = str ''monospace''"
    by (simp_all add: attachedRenderer_def unattachedRenderer_def)
  have gl: "glyph T0 attachedRenderer (CssRgb (Finite 30) (Finite 30) (Finite 30)) ?cell [19990] 1 0
      = FillText (CssRgb (Finite 30) (Finite 30) (Finite 30)) (Finite 1)
          (Font [] 15 (str ''monospace'')) [19990] 10 16"
    "glyph T0 ?r1 (CssRgb (Finite 30) (Finite 30) (Finite 30)) ?cell [19990] 1 0
      = FillText (CssRgb (Finite 30) (Finite 30) (Finite 30)) (Finite 1)
          (Font [] 15 (str ''monospace'')) [19990] 10 16"
    by (simp_all add: glyph_def m T0_def withFrame_props wideRow_def plainCell_def)
  have i: "flags ?cell AND INVISIBLE T0 = 0" by (simp add: plainCell_def)
  have y: "(0::nat) \<in> set (renderedRows T0 ?in)" "(1::nat) < cols ?in"
    "nth_cell (viewportCells ?in) (0 * cols ?in + 1) = Some ?cell" "cell_width ?cell \<noteq> 0"
    using c by (simp_all add: default_rows defaultThemeInput_fields)
  note th1 = resolveTheme_default_selectionForeground
    [of None attachedRenderer 1 0 ?cell T0 "[19990]" ?in]
  note th2 = resolveTheme_default_selectionForeground
    [of None ?r1 1 0 ?cell T0 "[19990]" ?in]
  note th3 = resolveTheme_default_selectionForeground
    [of "Some (emptyTheme\<lparr> foreground := Value (str ''#fff'') \<rparr>)" ?r1 1 0 ?cell T0 "[19990]" ?in]
  have p1: "theme_selectionForeground (resolveTheme None) = Some (rgba 30 30 30 1)"
    using th1 by blast
  have p2: "theme_selectionForeground
        (resolveTheme (Some (emptyTheme\<lparr> foreground := Value (str ''#fff'') \<rparr>)))
       = Some (rgba 30 30 30 1)"
    using th3 ab by blast
  have "glyph T0 attachedRenderer (CssRgb (Finite 30) (Finite 30) (Finite 30)) ?cell [19990] 1 0
       \<in> set (painted attachedRenderer (snd (render T0 attachedRenderer ?in)))"
    using th1 attached_example g defaultThemeInput_fields(6) n y i s t by blast
  then have p3: "FillText (CssRgb (Finite 30) (Finite 30) (Finite 30)) (Finite 1)
        (Font [] 15 (str ''monospace'')) [19990] 10 16
       \<in> set (painted attachedRenderer (snd (render T0 attachedRenderer ?in)))"
    unfolding gl .
  have "\<exists>ds. painted ?r1 (snd (renderCellText T0 ?r1 ?cell 1 0)) =
          glyph T0 ?r1 (CssRgb (Finite 30) (Finite 30) (Finite 30)) ?cell [19990] 1 0 # ds"
    using th2 a1 s i t by blast
  then have p4: "\<exists>ds. painted ?r1 (snd (renderCellText T0 ?r1 ?cell 1 0)) =
          FillText (CssRgb (Finite 30) (Finite 30) (Finite 30)) (Finite 1)
              (Font [] 15 (str ''monospace'')) [19990] 10 16 # ds"
    unfolding gl .
  show ?thesis
    using p1 ab p2 attached_example g defaultThemeInput_fields(6) n default_rows c s t p3 p4
    by blast
qed

end
